theory Spec2Isabelle
  imports Complex_Main "HOL-Library.Word"
begin

unbundle bit_operations_syntax

section \<open>Numbers and points\<close>

text \<open>
  The program is JavaScript. Its numbers are modelled as mathematical reals: rounding,
  NaN and the infinities of IEEE doubles are not represented. So the cells, centroids
  and areas computed here are exact where the program's are rounded: the two agree on
  inputs whose intermediate values are integers or dyadic rationals of a few bits, differ
  in the last bits otherwise, and differ by more where the program subtracts nearly equal
  numbers, as on a very thin outline. The 32-bit integer
  arithmetic of the seeded generator is modelled exactly, on \<open>32 word\<close>.
  A point \<open>{x, y}\<close> is a record; a polygon is the list of its vertices. The fields
  \<open>x\<close> and \<open>y\<close> are written \<open>px\<close> and \<open>py\<close>, and a fragment's \<open>id\<close> is
  written \<open>frag_id\<close>; all other names are those of the source.
\<close>

record point =
  px :: real
  py :: real

type_synonym polygon = "point list"

section \<open>geometry.js\<close>

text \<open>Signed area of a polygon (positive = CCW): the shoelace loop over \<open>i\<close>.\<close>

definition polygonArea :: "polygon \<Rightarrow> real" where
  "polygonArea poly =
     fold (\<lambda>i area.
             (let j = (i + 1) mod length poly
              in area + px (poly ! i) * py (poly ! j) - px (poly ! j) * py (poly ! i)))
          [0..<length poly] 0 / 2"

text \<open>Centroid of a polygon; the vertex average when the area is below \<open>1e-10\<close>.\<close>

definition polygonCentroid :: "polygon \<Rightarrow> point" where
  "polygonCentroid poly =
     (let a = polygonArea poly in
      if \<bar>a\<bar> < 1 / 10000000000 then
        \<lparr>px = foldl (\<lambda>s p. s + px p) 0 poly / real (length poly),
         py = foldl (\<lambda>s p. s + py p) 0 poly / real (length poly)\<rparr>
      else
        (let c = fold (\<lambda>i (cx, cy).
                    (let j = (i + 1) mod length poly;
                         cross = px (poly ! i) * py (poly ! j) - px (poly ! j) * py (poly ! i)
                     in (cx + (px (poly ! i) + px (poly ! j)) * cross,
                         cy + (py (poly ! i) + py (poly ! j)) * cross)))
                  [0..<length poly] (0, 0)
         in \<lparr>px = fst c / (6 * a), py = snd c / (6 * a)\<rparr>))"

text \<open>
  Point-in-polygon test by ray casting. In the loop \<open>j\<close> is the index before \<open>i\<close>,
  starting at the last vertex. The division is only reached when the two \<open>y\<close> values
  differ, as in the source's short-circuit conjunction.
\<close>

definition pointInPolygon :: "point \<Rightarrow> polygon \<Rightarrow> bool" where
  "pointInPolygon pt poly =
     fold (\<lambda>i inside.
             (let j = (if i = 0 then length poly - 1 else i - 1);
                  xi = px (poly ! i); yi = py (poly ! i);
                  xj = px (poly ! j); yj = py (poly ! j)
              in if ((yi > py pt) \<noteq> (yj > py pt)) \<and>
                    px pt < ((xj - xi) * (py pt - yi)) / (yj - yi) + xi
                 then \<not> inside else inside))
          [0..<length poly] False"

text \<open>
  Axis-aligned bounding box. The source starts from \<open>\<plusminus>Infinity\<close> and scans every
  vertex, so after the first vertex all four fields hold its coordinates; the model
  starts there. The bounds of the empty polygon are infinite in the source and are left
  unspecified here.
\<close>

record bounds =
  minX :: real
  minY :: real
  maxX :: real
  maxY :: real

definition boundsStep :: "point \<Rightarrow> bounds \<Rightarrow> bounds" where
  "boundsStep p b =
     \<lparr>minX = (if px p < minX b then px p else minX b),
      minY = (if py p < minY b then py p else minY b),
      maxX = (if px p > maxX b then px p else maxX b),
      maxY = (if py p > maxY b then py p else maxY b)\<rparr>"

fun polygonBounds :: "polygon \<Rightarrow> bounds" where
  "polygonBounds (p # ps) =
     fold boundsStep ps \<lparr>minX = px p, minY = py p, maxX = px p, maxY = py p\<rparr>"

text \<open>Is the point on the left side of (or on) the directed edge from \<open>a\<close> to \<open>b\<close>?\<close>

definition isInside :: "point \<Rightarrow> point \<Rightarrow> point \<Rightarrow> bool" where
  "isInside p a b \<longleftrightarrow>
     (px b - px a) * (py p - py a) - (py b - py a) * (px p - px a) \<ge> 0"

text \<open>Intersection of the lines through (p1,p2) and (p3,p4); \<open>null\<close> is \<open>None\<close>.\<close>

definition lineIntersection :: "point \<Rightarrow> point \<Rightarrow> point \<Rightarrow> point \<Rightarrow> point option" where
  "lineIntersection p1 p2 p3 p4 =
     (let x1 = px p1; y1 = py p1; x2 = px p2; y2 = py p2;
          x3 = px p3; y3 = py p3; x4 = px p4; y4 = py p4;
          denom = (x1 - x2) * (y3 - y4) - (y1 - y2) * (x3 - x4)
      in if \<bar>denom\<bar> < 1 / 10000000000 then None
         else (let t = ((x1 - x3) * (y3 - y4) - (y1 - y3) * (x3 - x4)) / denom
               in Some \<lparr>px = x1 + t * (x2 - x1), py = y1 + t * (y2 - y1)\<rparr>))"

text \<open>
  One pass of Sutherland-Hodgman against the directed line \<open>a \<rightarrow> b\<close>: the loop over
  \<open>j\<close> that \<open>clipPolygon\<close> and \<open>clipPolygonByLine\<close> both contain, with the same body.
\<close>

definition pushInter :: "point option \<Rightarrow> polygon \<Rightarrow> polygon" where
  "pushInter hit output = (case hit of None \<Rightarrow> output | Some q \<Rightarrow> output @ [q])"

definition clipEdgeStep :: "polygon \<Rightarrow> point \<Rightarrow> point \<Rightarrow> nat \<Rightarrow> polygon \<Rightarrow> polygon" where
  "clipEdgeStep input a b j output =
     (let current = input ! j;
          prev = input ! ((j + length input - 1) mod length input);
          currInside = isInside current a b;
          prevInside = isInside prev a b
      in if currInside then
           (if \<not> prevInside then pushInter (lineIntersection prev current a b) output
            else output) @ [current]
         else if prevInside then pushInter (lineIntersection prev current a b) output
         else output)"

definition clipEdge :: "polygon \<Rightarrow> point \<Rightarrow> point \<Rightarrow> polygon" where
  "clipEdge input a b = fold (clipEdgeStep input a b) [0..<length input] []"

text \<open>
  Sutherland-Hodgman clipping of \<open>subject\<close> against \<open>clip\<close>. \<open>clipLoop\<close> is the loop
  over the clip edges \<open>i\<close>, with its early return when the output is empty.
\<close>

function clipLoop :: "polygon \<Rightarrow> nat \<Rightarrow> polygon \<Rightarrow> polygon" where
  "clipLoop clip i output =
     (if i < length clip then
        (if length output = 0 then []
         else clipLoop clip (i + 1)
                (clipEdge output (clip ! i) (clip ! ((i + 1) mod length clip))))
      else output)"
  by pat_completeness auto
termination
  by (relation "measure (\<lambda>(clip, i, output). length clip - i)") auto

declare clipLoop.simps [simp del]

definition clipPolygon :: "polygon \<Rightarrow> polygon \<Rightarrow> polygon" where
  "clipPolygon subject clip =
     (if length subject < 3 \<or> length clip < 3 then [] else clipLoop clip 0 subject)"

text \<open>Clip a polygon against the half-plane left of the line from \<open>lineA\<close> to \<open>lineB\<close>.\<close>

definition clipPolygonByLine :: "polygon \<Rightarrow> point \<Rightarrow> point \<Rightarrow> polygon" where
  "clipPolygonByLine poly lineA lineB =
     (if length poly < 3 then [] else clipEdge poly lineA lineB)"

text \<open>
  Rejection sampling. The generator \<open>rng\<close> is a function of an explicit state: each
  call returns a number and the next state. The loop also returns the number of
  attempts made, which the source keeps in a local variable.
\<close>

definition samplePoint :: "('st \<Rightarrow> real \<times> 'st) \<Rightarrow> bounds \<Rightarrow> 'st \<Rightarrow> point \<times> 'st" where
  "samplePoint rng b st =
     (let r1 = rng st; r2 = rng (snd r1)
      in (\<lparr>px = minX b + fst r1 * (maxX b - minX b),
           py = minY b + fst r2 * (maxY b - minY b)\<rparr>, snd r2))"

function randomPointsLoop ::
  "polygon \<Rightarrow> nat \<Rightarrow> ('st \<Rightarrow> real \<times> 'st) \<Rightarrow> bounds \<Rightarrow> polygon \<Rightarrow> nat \<Rightarrow> 'st
     \<Rightarrow> polygon \<times> nat \<times> 'st" where
  "randomPointsLoop poly n rng b points attempts st =
     (if length points < n \<and> attempts < n * 200 then
        (let smp = samplePoint rng b st
         in randomPointsLoop poly n rng b
              (if pointInPolygon (fst smp) poly then points @ [fst smp] else points)
              (attempts + 1) (snd smp))
      else (points, attempts, st))"
  by pat_completeness auto
termination
  by (relation "measure (\<lambda>(poly, n, rng, b, points, attempts, st). n * 200 - attempts)") auto

declare randomPointsLoop.simps [simp del]

definition randomPointsInPolygon ::
  "polygon \<Rightarrow> nat \<Rightarrow> ('st \<Rightarrow> real \<times> 'st) \<Rightarrow> 'st \<Rightarrow> polygon \<times> nat \<times> 'st" where
  "randomPointsInPolygon poly n rng st =
     randomPointsLoop poly n rng (polygonBounds poly) [] 0 st"

text \<open>
  Voronoi cells by half-plane intersection. \<open>cellLoop\<close> is the inner loop over \<open>j\<close>
  for a fixed seed \<open>i\<close>, with its \<open>continue\<close> and \<open>break\<close>.
\<close>

definition bisectorA :: "point \<Rightarrow> point \<Rightarrow> point" where
  "bisectorA si sj =
     (let mid = \<lparr>px = (px si + px sj) / 2, py = (py si + py sj) / 2\<rparr>;
          dx = px sj - px si; dy = py sj - py si
      in \<lparr>px = px mid - dy, py = py mid + dx\<rparr>)"

definition bisectorB :: "point \<Rightarrow> point \<Rightarrow> point" where
  "bisectorB si sj =
     (let mid = \<lparr>px = (px si + px sj) / 2, py = (py si + py sj) / 2\<rparr>;
          dx = px sj - px si; dy = py sj - py si
      in \<lparr>px = px mid + dy, py = py mid - dx\<rparr>)"

function cellLoop :: "point list \<Rightarrow> nat \<Rightarrow> nat \<Rightarrow> polygon \<Rightarrow> polygon" where
  "cellLoop seeds i j cell =
     (if j < length seeds then
        (if i = j then cellLoop seeds i (j + 1) cell
         else if length cell < 3 then cell
         else cellLoop seeds i (j + 1)
                (clipPolygonByLine cell (bisectorA (seeds ! i) (seeds ! j))
                                        (bisectorB (seeds ! i) (seeds ! j))))
      else cell)"
  by pat_completeness auto
termination
  by (relation "measure (\<lambda>(seeds, i, j, cell). length seeds - j)") auto

declare cellLoop.simps [simp del]

definition bigBox :: "polygon \<Rightarrow> polygon" where
  "bigBox poly =
     (let b = polygonBounds poly;
          pad = max (maxX b - minX b) (maxY b - minY b) * (1 / 2)
      in [\<lparr>px = minX b - pad, py = minY b - pad\<rparr>,
          \<lparr>px = maxX b + pad, py = minY b - pad\<rparr>,
          \<lparr>px = maxX b + pad, py = maxY b + pad\<rparr>,
          \<lparr>px = minX b - pad, py = maxY b + pad\<rparr>])"

definition voronoiCell :: "point list \<Rightarrow> polygon \<Rightarrow> nat \<Rightarrow> polygon" where
  "voronoiCell seeds poly i =
     (let cell = cellLoop seeds i 0 (bigBox poly);
          cell' = (if length cell \<ge> 3 then clipPolygon cell poly else cell)
      in if length cell' \<ge> 3 then cell' else [])"

definition computeVoronoiCells :: "point list \<Rightarrow> polygon \<Rightarrow> polygon list" where
  "computeVoronoiCells seeds poly = map (voronoiCell seeds poly) [0..<length seeds]"

text \<open>
  Lloyd relaxation. The cells of one iteration are computed before any seed of that
  iteration moves, so each iteration is a map over the indices.
\<close>

definition relaxOnce :: "point list \<Rightarrow> polygon \<Rightarrow> point list" where
  "relaxOnce current poly =
     (let cells = computeVoronoiCells current poly
      in map (\<lambda>i. if length (cells ! i) \<ge> 3 then
                     (let c = polygonCentroid (cells ! i)
                      in if pointInPolygon c poly then c else current ! i)
                   else current ! i)
             [0..<length current])"

primrec lloydRelax :: "point list \<Rightarrow> polygon \<Rightarrow> nat \<Rightarrow> point list" where
  "lloydRelax seeds poly 0 = seeds"
| "lloydRelax seeds poly (Suc k) = lloydRelax (relaxOnce seeds poly) poly k"

text \<open>Rotate a point around the origin, then translate.\<close>

definition transformPoint :: "point \<Rightarrow> real \<Rightarrow> point \<Rightarrow> point" where
  "transformPoint p rot translation =
     \<lparr>px = px p * cos rot - py p * sin rot + px translation,
      py = px p * sin rot + py p * cos rot + py translation\<rparr>"

text \<open>
  Does a canvas point hit a fragment? Only the fields the test reads are arguments of
  the model's core; the fragment record follows below.
\<close>

definition hitTestAt :: "point \<Rightarrow> point \<Rightarrow> real \<Rightarrow> polygon \<Rightarrow> point \<Rightarrow> bool" where
  "hitTestAt canvasPoint curPos rot poly cen =
     (let dx = px canvasPoint - px curPos;
          dy = py canvasPoint - py curPos;
          c = cos (- rot);
          s = sin (- rot);
          localX = dx * c - dy * s;
          localY = dx * s + dy * c;
          poly' = map (\<lambda>v. \<lparr>px = px v - px cen, py = py v - py cen\<rparr>) poly
      in pointInPolygon \<lparr>px = localX, py = localY\<rparr> poly')"

section \<open>fracture.js\<close>

text \<open>
  Piece counts for each difficulty level. \<open>PIECE_COUNTS\<close> is an object literal, so a
  property read on it finds its three own properties and, for any other key, the
  properties every object inherits from \<open>Object.prototype\<close>, whose values are
  functions or objects (truthy, and not numbers).
\<close>

datatype jsarg = Undefined | Null | Num real | Str string

datatype jsprop = PNumber nat | PInherited | PUndefined

definition objectPrototypeKeys :: "string list" where
  "objectPrototypeKeys =
     [''constructor'', ''hasOwnProperty'', ''isPrototypeOf'', ''propertyIsEnumerable'',
      ''toLocaleString'', ''toString'', ''valueOf'', ''__proto__'',
      ''__defineGetter__'', ''__defineSetter__'', ''__lookupGetter__'', ''__lookupSetter__'']"

definition PIECE_COUNTS :: "string \<Rightarrow> jsprop" where
  "PIECE_COUNTS key =
     (if key = ''easy'' then PNumber 5
      else if key = ''medium'' then PNumber 8
      else if key = ''hard'' then PNumber 13
      else if key \<in> set objectPrototypeKeys then PInherited
      else PUndefined)"

text \<open>
  \<open>PIECE_COUNTS[difficulty]\<close> after the default parameter \<open>difficulty = 'medium'\<close>.
  A number or \<open>null\<close> is converted to a key (its decimal form, \<open>"null"\<close>) that names no
  property of the object.
\<close>

definition lookupDifficulty :: "jsarg \<Rightarrow> jsprop" where
  "lookupDifficulty difficulty =
     (case difficulty of
        Undefined \<Rightarrow> PIECE_COUNTS ''medium''
      | Null \<Rightarrow> PUndefined
      | Num r \<Rightarrow> PUndefined
      | Str key \<Rightarrow> PIECE_COUNTS key)"

text \<open>
  \<open>n = PIECE_COUNTS[difficulty] || PIECE_COUNTS.medium\<close>. The value is a number, or
  an inherited property that is not one.
\<close>

datatype count = Count nat | NotANumber

definition pieceCount :: "jsarg \<Rightarrow> count" where
  "pieceCount difficulty =
     (case lookupDifficulty difficulty of
        PNumber k \<Rightarrow> (if k = 0 then Count 8 else Count k)
      | PInherited \<Rightarrow> NotANumber
      | PUndefined \<Rightarrow> Count 8)"

text \<open>Seeded PRNG (Mulberry32): one call of the closure, on its state \<open>s\<close>.\<close>

definition mulberry32 :: "32 word \<Rightarrow> real \<times> 32 word" where
  "mulberry32 s =
     (let s' = s + 0x6d2b79f5;
          t = (s' XOR drop_bit 15 s') * (1 OR s');
          t' = (t + (t XOR drop_bit 7 t) * (61 OR t)) XOR t
      in (real (unat (t' XOR drop_bit 14 t')) / 4294967296, s'))"

text \<open>
  The two sources of randomness. \<open>Math.random\<close> is modelled by the sequence of the
  values it returns, \<open>amb\<close>, and the number of calls made so far. The state of a
  generation run is the closure variable of the seeded generator together with that
  number of calls.
\<close>

type_synonym ambient = "nat \<Rightarrow> real"

type_synonym rstate = "32 word \<times> nat"

definition seededRng :: "rstate \<Rightarrow> real \<times> rstate" where
  "seededRng st = (let r = mulberry32 (fst st) in (fst r, (snd r, snd st)))"

definition mathRandom :: "ambient \<Rightarrow> rstate \<Rightarrow> real \<times> rstate" where
  "mathRandom amb st = (amb (snd st), (fst st, Suc (snd st)))"

text \<open>
  Torn-edge noise: each edge gets \<open>subdivisions\<close> intermediate points, displaced along
  the edge normal by an amount drawn from \<open>Math.random\<close>. The second component counts
  the calls of \<open>Math.random\<close>.
\<close>

definition noisePoint ::
  "ambient \<Rightarrow> real \<Rightarrow> nat \<Rightarrow> point \<Rightarrow> point \<Rightarrow> nat \<Rightarrow> polygon \<times> nat \<Rightarrow> polygon \<times> nat" where
  "noisePoint amb amount subdivisions a b s acc =
     (let t = real s / (real subdivisions + 1);
          mx = px a + (px b - px a) * t;
          my = py a + (py b - py a) * t;
          dx = px b - px a;
          dy = py b - py a;
          len = sqrt (dx * dx + dy * dy)
      in if len > 0 then
           (let nx = - dy / len;
                ny = dx / len;
                displacement = (amb (snd acc) - 1 / 2) * 2 * amount
            in (fst acc @ [\<lparr>px = mx + nx * displacement, py = my + ny * displacement\<rparr>],
                Suc (snd acc)))
         else (fst acc @ [\<lparr>px = mx, py = my\<rparr>], snd acc))"

definition noiseEdge ::
  "ambient \<Rightarrow> real \<Rightarrow> nat \<Rightarrow> polygon \<Rightarrow> nat \<Rightarrow> polygon \<times> nat \<Rightarrow> polygon \<times> nat" where
  "noiseEdge amb amount subdivisions poly i acc =
     (let a = poly ! i;
          b = poly ! ((i + 1) mod length poly)
      in fold (noisePoint amb amount subdivisions a b) [1..<subdivisions + 1]
              (fst acc @ [a], snd acc))"

definition addTornEdgeNoise ::
  "ambient \<Rightarrow> polygon \<Rightarrow> real \<Rightarrow> nat \<Rightarrow> nat \<Rightarrow> polygon \<times> nat" where
  "addTornEdgeNoise amb poly amount subdivisions k =
     (if length poly < 3 then (poly, k)
      else fold (noiseEdge amb amount subdivisions poly) [0..<length poly] ([], k))"

text \<open>The fragment objects.\<close>

record fragment =
  frag_id :: nat
  polygon :: polygon
  centroid :: point
  correctPosition :: point
  currentPosition :: point
  rotation :: real
  isPlaced :: bool
  zIndex :: int

definition hitTestFragment :: "point \<Rightarrow> fragment \<Rightarrow> bool" where
  "hitTestFragment canvasPoint frag =
     hitTestAt canvasPoint (currentPosition frag) (rotation frag) (polygon frag) (centroid frag)"

text \<open>
  \<open>generateFragments\<close>, in the order of its statements: the seed points (with the
  three-point fallback), the relaxed seeds and their cells, and the loop that builds
  the fragments. With a seed the points come from Mulberry32, without one from
  \<open>Math.random\<close>; the noise always comes from \<open>Math.random\<close>.
\<close>

definition sampleSeeds ::
  "polygon \<Rightarrow> count \<Rightarrow> int option \<Rightarrow> ambient \<Rightarrow> polygon \<times> nat \<times> rstate" where
  "sampleSeeds outline n seed amb =
     (let rng = (case seed of Some sd \<Rightarrow> seededRng | None \<Rightarrow> mathRandom amb);
          st0 = (case seed of Some sd \<Rightarrow> (word_of_int sd, 0) | None \<Rightarrow> (0, 0))
      in case n of
           Count k \<Rightarrow> randomPointsInPolygon outline k rng st0
         | NotANumber \<Rightarrow> ([], 0, st0))"

definition fallbackSeeds :: "polygon \<Rightarrow> point list" where
  "fallbackSeeds outline =
     (let b = polygonBounds outline;
          cx = (minX b + maxX b) / 2;
          cy = (minY b + maxY b) / 2
      in [\<lparr>px = cx, py = cy\<rparr>, \<lparr>px = cx - 20, py = cy - 20\<rparr>, \<lparr>px = cx + 20, py = cy + 20\<rparr>])"

definition initialSeeds :: "polygon \<Rightarrow> count \<Rightarrow> int option \<Rightarrow> ambient \<Rightarrow> point list" where
  "initialSeeds outline n seed amb =
     (let seeds = fst (sampleSeeds outline n seed amb)
      in if length seeds < 3 then fallbackSeeds outline else seeds)"

definition fractureCells :: "polygon \<Rightarrow> jsarg \<Rightarrow> int option \<Rightarrow> ambient \<Rightarrow> polygon list" where
  "fractureCells outline difficulty seed amb =
     computeVoronoiCells
       (lloydRelax (initialSeeds outline (pieceCount difficulty) seed amb) outline 2) outline"

definition buildFragment ::
  "ambient \<Rightarrow> real \<Rightarrow> polygon list \<Rightarrow> nat \<Rightarrow> fragment list \<times> nat \<Rightarrow> fragment list \<times> nat" where
  "buildFragment amb totalArea cells i acc =
     (let cell = cells ! i in
      if length cell < 3 then acc
      else if \<bar>polygonArea cell\<bar> < totalArea * (1 / 100) then acc
      else
        (let noisy = addTornEdgeNoise amb cell 2 1 (snd acc);
             c = polygonCentroid (fst noisy)
         in (fst acc @
               [\<lparr>frag_id = i, polygon = fst noisy, centroid = c, correctPosition = c,
                 currentPosition = \<lparr>px = 0, py = 0\<rparr>, rotation = 0, isPlaced = False,
                 zIndex = int i\<rparr>],
             snd noisy)))"

definition generateFragments ::
  "polygon \<Rightarrow> jsarg \<Rightarrow> int option \<Rightarrow> ambient \<Rightarrow> fragment list" where
  "generateFragments outline difficulty seed amb =
     (let cells = fractureCells outline difficulty seed amb;
          k0 = snd (snd (snd (sampleSeeds outline (pieceCount difficulty) seed amb)));
          totalArea = \<bar>polygonArea outline\<bar>
      in fst (fold (buildFragment amb totalArea cells) [0..<length cells] ([], k0)))"

text \<open>
  Is a fragment close enough to snap into place? \<open>jsMod\<close> is JavaScript's \<open>%\<close> on
  numbers: the remainder has the sign of the dividend.
\<close>

definition jsTrunc :: "real \<Rightarrow> int" where
  "jsTrunc r = (if r < 0 then \<lceil>r\<rceil> else \<lfloor>r\<rfloor>)"

definition jsMod :: "real \<Rightarrow> real \<Rightarrow> real" where
  "jsMod a b = a - b * of_int (jsTrunc (a / b))"

definition checkSnap :: "fragment \<Rightarrow> point \<Rightarrow> real \<Rightarrow> real \<Rightarrow> bool" where
  "checkSnap frag leafOrigin snapDistance snapAngle =
     (let targetX = px leafOrigin + px (centroid frag);
          targetY = py leafOrigin + py (centroid frag);
          dx = px (currentPosition frag) - targetX;
          dy = py (currentPosition frag) - targetY;
          distance = sqrt (dx * dx + dy * dy);
          rot0 = jsMod (rotation frag) (pi * 2);
          rot = (if rot0 < 0 then rot0 + pi * 2 else rot0);
          angleOk = (rot < snapAngle \<or> rot > pi * 2 - snapAngle)
      in distance < snapDistance \<and> angleOk)"

text \<open>Snap a fragment into its correct position.\<close>

definition snapFragment :: "fragment \<Rightarrow> point \<Rightarrow> fragment" where
  "snapFragment frag leafOrigin =
     frag\<lparr>currentPosition :=
            \<lparr>px = px leafOrigin + px (centroid frag), py = py leafOrigin + py (centroid frag)\<rparr>,
          rotation := 0,
          isPlaced := True\<rparr>"

section \<open>PuzzleCanvas.jsx: pointer and keyboard interaction\<close>

text \<open>
  The component keeps its mutable state in refs: the fragment list, the fragment being
  dragged (if any), the leaf origin and the scale. The fragment objects are mutated in
  place; in the model a handler returns the new state, and a fragment object is
  identified by its position in the list. \<open>fragments.find(f => f.id === id)\<close> is
  the first position with that id.
\<close>

record dragging =
  fragmentId :: nat
  offsetX :: real
  offsetY :: real

record canvas =
  fragmentsRef :: "fragment list"
  draggingRef :: "dragging option"
  leafOriginRef :: point
  scaleRef :: real

definition SNAP_DISTANCE :: real where "SNAP_DISTANCE = 35"

definition SNAP_ANGLE :: real where "SNAP_ANGLE = 4 / 10"

definition ROTATE_STEP :: real where "ROTATE_STEP = pi / 2"

text \<open>
  \<open>findFragment\<close>: the unplaced fragments, topmost first (the sort is stable), and
  the first of them that the point hits, tested on a copy scaled for the canvas.
\<close>

definition scaledFrag :: "real \<Rightarrow> fragment \<Rightarrow> fragment" where
  "scaledFrag sc frag =
     frag\<lparr>polygon := map (\<lambda>v. \<lparr>px = px v * sc, py = py v * sc\<rparr>) (polygon frag),
          centroid := \<lparr>px = px (centroid frag) * sc, py = py (centroid frag) * sc\<rparr>\<rparr>"

definition unplacedByZ :: "fragment list \<Rightarrow> nat list" where
  "unplacedByZ frs =
     sort_key (\<lambda>i. - zIndex (frs ! i)) (filter (\<lambda>i. \<not> isPlaced (frs ! i)) [0..<length frs])"

definition findFragment :: "canvas \<Rightarrow> point \<Rightarrow> nat option" where
  "findFragment s pos =
     List.find (\<lambda>i. hitTestFragment pos (scaledFrag (scaleRef s) (fragmentsRef s ! i)))
       (unplacedByZ (fragmentsRef s))"

definition findById :: "fragment list \<Rightarrow> nat \<Rightarrow> nat option" where
  "findById frs fid = List.find (\<lambda>i. frag_id (frs ! i) = fid) [0..<length frs]"

text \<open>Pointer down: grab the topmost unplaced fragment under the pointer.\<close>

definition handlePointerDown :: "bool \<Rightarrow> point \<Rightarrow> canvas \<Rightarrow> canvas" where
  "handlePointerDown isVictory pos s =
     (if isVictory then s
      else case findFragment s pos of
             None \<Rightarrow> s
           | Some i \<Rightarrow>
               (let frs = fragmentsRef s;
                    frag = frs ! i;
                    maxZ = Max (set (map zIndex frs))
                in s\<lparr>fragmentsRef := frs[i := frag\<lparr>zIndex := maxZ + 1\<rparr>],
                     draggingRef :=
                       Some \<lparr>fragmentId = frag_id frag,
                             offsetX = px pos - px (currentPosition frag),
                             offsetY = py pos - py (currentPosition frag)\<rparr>\<rparr>))"

text \<open>Pointer move: the dragged fragment follows the pointer.\<close>

definition handlePointerMove :: "point \<Rightarrow> canvas \<Rightarrow> canvas" where
  "handlePointerMove pos s =
     (case draggingRef s of
        None \<Rightarrow> s
      | Some d \<Rightarrow>
          (case findById (fragmentsRef s) (fragmentId d) of
             None \<Rightarrow> s
           | Some i \<Rightarrow>
               s\<lparr>fragmentsRef := (fragmentsRef s)[i := (fragmentsRef s ! i)
                     \<lparr>currentPosition := \<lparr>px = px pos - offsetX d, py = py pos - offsetY d\<rparr>\<rparr>]\<rparr>))"

text \<open>Pointer up: release the fragment and snap it if it is close enough.\<close>

definition handlePointerUp :: "canvas \<Rightarrow> canvas" where
  "handlePointerUp s =
     (case draggingRef s of
        None \<Rightarrow> s
      | Some d \<Rightarrow>
          (case findById (fragmentsRef s) (fragmentId d) of
             None \<Rightarrow> s\<lparr>draggingRef := None\<rparr>
           | Some i \<Rightarrow>
               (let frag = fragmentsRef s ! i;
                    targetX = px (leafOriginRef s) + px (centroid frag) * scaleRef s;
                    targetY = py (leafOriginRef s) + py (centroid frag) * scaleRef s;
                    dx = px (currentPosition frag) - targetX;
                    dy = py (currentPosition frag) - targetY;
                    distance = sqrt (dx * dx + dy * dy);
                    rot0 = jsMod (rotation frag) (pi * 2);
                    rot = (if rot0 < 0 then rot0 + pi * 2 else rot0);
                    angleOk = (rot < SNAP_ANGLE \<or> rot > pi * 2 - SNAP_ANGLE)
                in if distance < SNAP_DISTANCE \<and> angleOk then
                     s\<lparr>draggingRef := None,
                       fragmentsRef := (fragmentsRef s)[i := frag
                         \<lparr>currentPosition := \<lparr>px = targetX, py = targetY\<rparr>,
                          rotation := 0, isPlaced := True\<rparr>]\<rparr>
                   else s\<lparr>draggingRef := None\<rparr>)))"

text \<open>The R key and the wheel rotate the dragged fragment by a quarter turn.\<close>

definition rotateDragged :: "real \<Rightarrow> canvas \<Rightarrow> canvas" where
  "rotateDragged step s =
     (case draggingRef s of
        None \<Rightarrow> s
      | Some d \<Rightarrow>
          (case findById (fragmentsRef s) (fragmentId d) of
             None \<Rightarrow> s
           | Some i \<Rightarrow>
               s\<lparr>fragmentsRef := (fragmentsRef s)[i := (fragmentsRef s ! i)
                     \<lparr>rotation := rotation (fragmentsRef s ! i) + step\<rparr>]\<rparr>))"

definition handleKeyR :: "canvas \<Rightarrow> canvas" where
  "handleKeyR s = rotateDragged ROTATE_STEP s"

definition handleWheel :: "real \<Rightarrow> canvas \<Rightarrow> canvas" where
  "handleWheel deltaY s = rotateDragged (if deltaY > 0 then ROTATE_STEP else - ROTATE_STEP) s"

text \<open>The rotate button turns the topmost unplaced fragment.\<close>

definition handleRotateBtn :: "canvas \<Rightarrow> canvas" where
  "handleRotateBtn s =
     (case unplacedByZ (fragmentsRef s) of
        [] \<Rightarrow> s
      | i # rest \<Rightarrow>
          s\<lparr>fragmentsRef := (fragmentsRef s)[i := (fragmentsRef s ! i)
                \<lparr>rotation := rotation (fragmentsRef s ! i) + ROTATE_STEP\<rparr>]\<rparr>)"

text \<open>
  The interaction events. \<open>isVictory\<close> is a prop of the component, so a pointer-down
  event carries its current value.
\<close>

datatype event =
  PointerDown bool point | PointerMove point | PointerUp | KeyR | Wheel real | RotateBtn

fun handle :: "event \<Rightarrow> canvas \<Rightarrow> canvas" where
  "handle (PointerDown isVictory pos) s = handlePointerDown isVictory pos s"
| "handle (PointerMove pos) s = handlePointerMove pos s"
| "handle PointerUp s = handlePointerUp s"
| "handle KeyR s = handleKeyR s"
| "handle (Wheel deltaY) s = handleWheel deltaY s"
| "handle RotateBtn s = handleRotateBtn s"

definition interact :: "event list \<Rightarrow> canvas \<Rightarrow> canvas" where
  "interact evs s = fold handle evs s"

text \<open>
  The invariant of the interaction: ids are unique and the fragment being dragged, if
  there is one, is not placed. \<open>lockedL\<close> relates two fragment lists when every
  fragment placed in the first is unchanged in the second.
\<close>

definition dragOk :: "canvas \<Rightarrow> bool" where
  "dragOk s \<longleftrightarrow>
     distinct (map frag_id (fragmentsRef s)) \<and>
     (case draggingRef s of
        None \<Rightarrow> True
      | Some d \<Rightarrow>
          (case findById (fragmentsRef s) (fragmentId d) of
             None \<Rightarrow> True
           | Some i \<Rightarrow> \<not> isPlaced (fragmentsRef s ! i)))"

definition lockedL :: "fragment list \<Rightarrow> fragment list \<Rightarrow> bool" where
  "lockedL frs frs' \<longleftrightarrow>
     length frs' = length frs \<and>
     (\<forall>i < length frs. isPlaced (frs ! i) \<longrightarrow>
        isPlaced (frs' ! i) \<and>
        currentPosition (frs' ! i) = currentPosition (frs ! i) \<and>
        rotation (frs' ! i) = rotation (frs ! i))"

section \<open>Notions of the specification and concrete inputs\<close>

text \<open>Squared Euclidean distance, used to say which seed a point is closer to.\<close>

definition sqDist :: "point \<Rightarrow> point \<Rightarrow> real" where
  "sqDist a b = (px a - px b) * (px a - px b) + (py a - py b) * (py a - py b)"

text \<open>
  The snap test in the words of the specification: the Euclidean distance to
  \<open>anchor + centroid\<close> is below the snap distance, and the rotation, normalised into
  \<open>[0, 2\<pi>)\<close>, is within the tolerance of 0 on either side of the wrap.
\<close>

definition euclid :: "point \<Rightarrow> point \<Rightarrow> real" where
  "euclid a b = sqrt ((px a - px b)\<^sup>2 + (py a - py b)\<^sup>2)"

definition normalizeAngle :: "real \<Rightarrow> real" where
  "normalizeAngle r = r - 2 * pi * of_int \<lfloor>r / (2 * pi)\<rfloor>"

definition snapTarget :: "fragment \<Rightarrow> point \<Rightarrow> point" where
  "snapTarget frag anchor =
     \<lparr>px = px anchor + px (centroid frag), py = py anchor + py (centroid frag)\<rparr>"

definition checkSnap_spec :: "fragment \<Rightarrow> point \<Rightarrow> real \<Rightarrow> real \<Rightarrow> bool" where
  "checkSnap_spec frag anchor snapDistance snapAngleTolerance \<longleftrightarrow>
     euclid (currentPosition frag) (snapTarget frag anchor) < snapDistance \<and>
     (normalizeAngle (rotation frag) < snapAngleTolerance \<or>
      normalizeAngle (rotation frag) > 2 * pi - snapAngleTolerance)"

text \<open>Two seeds in a 4 by 4 square.\<close>

definition sq4 :: polygon where
  "sq4 = [\<lparr>px = 0, py = 0\<rparr>, \<lparr>px = 4, py = 0\<rparr>, \<lparr>px = 4, py = 4\<rparr>, \<lparr>px = 0, py = 4\<rparr>]"

definition seedL :: point where "seedL = \<lparr>px = 1, py = 2\<rparr>"

definition seedR :: point where "seedR = \<lparr>px = 3, py = 2\<rparr>"

text \<open>
  A square of side \<open>2^-20\<close> (about \<open>1e-6\<close>) and a triangle of the same scale
  with one vertex inside it: every line intersection between them has a denominator
  below \<open>1e-10\<close>.
\<close>

definition tinySquare :: polygon where
  "tinySquare = [\<lparr>px = 0, py = 0\<rparr>, \<lparr>px = 1 / 1048576, py = 0\<rparr>,
                 \<lparr>px = 1 / 1048576, py = 1 / 1048576\<rparr>, \<lparr>px = 0, py = 1 / 1048576\<rparr>]"

definition tinyTriangle :: polygon where
  "tinyTriangle = [\<lparr>px = 1 / 2097152, py = 1 / 2097152\<rparr>,
                   \<lparr>px = 2 / 1048576, py = 1 / 2097152\<rparr>,
                   \<lparr>px = 2 / 1048576, py = 1 / 1048576\<rparr>]"

text \<open>Fragments at distance 34 and 36 from the target, and one rotated by 0.41 rad.\<close>

definition frag34 :: fragment where
  "frag34 = \<lparr>frag_id = 0, polygon = [], centroid = \<lparr>px = 5, py = 5\<rparr>,
              correctPosition = \<lparr>px = 5, py = 5\<rparr>, currentPosition = \<lparr>px = 139, py = 105\<rparr>,
              rotation = 39 / 100, isPlaced = False, zIndex = 0\<rparr>"

definition frag36 :: fragment where
  "frag36 = frag34\<lparr>currentPosition := \<lparr>px = 141, py = 105\<rparr>\<rparr>"

definition frag41 :: fragment where
  "frag41 = frag34\<lparr>rotation := 41 / 100\<rparr>"

text \<open>A square fragment of side 10 centred at the origin, moved to (100, 100).\<close>

definition squareFrag :: fragment where
  "squareFrag = \<lparr>frag_id = 0,
      polygon = [\<lparr>px = -5, py = -5\<rparr>, \<lparr>px = 5, py = -5\<rparr>, \<lparr>px = 5, py = 5\<rparr>, \<lparr>px = -5, py = 5\<rparr>],
      centroid = \<lparr>px = 0, py = 0\<rparr>, correctPosition = \<lparr>px = 0, py = 0\<rparr>,
      currentPosition = \<lparr>px = 100, py = 100\<rparr>, rotation = 0, isPlaced = False, zIndex = 0\<rparr>"

text \<open>
  A canvas holding that fragment, with the leaf origin at (300, 300); the events that
  drag it onto its target and release it; and further events aimed at it afterwards.
\<close>

definition canvas0 :: canvas where
  "canvas0 = \<lparr>fragmentsRef = [squareFrag], draggingRef = None,
               leafOriginRef = \<lparr>px = 300, py = 300\<rparr>, scaleRef = 1\<rparr>"

definition evsPlace :: "event list" where
  "evsPlace = [PointerDown False \<lparr>px = 100, py = 100\<rparr>, PointerMove \<lparr>px = 300, py = 300\<rparr>,
               PointerUp]"

definition evsAfter :: "event list" where
  "evsAfter = [PointerDown False \<lparr>px = 300, py = 300\<rparr>, PointerMove \<lparr>px = 10, py = 10\<rparr>,
               KeyR, Wheel 1, RotateBtn, PointerUp]"


text \<open>
  A fragment is built from cell \<open>frag_id f\<close> of the list \<open>cells\<close>: the cell has at
  least 3 vertices, its absolute area is at least 1% of \<open>totalArea\<close>, and the
  fragment's polygon is that cell with torn-edge noise added.
\<close>

definition builtFrom :: "ambient \<Rightarrow> real \<Rightarrow> polygon list \<Rightarrow> nat \<Rightarrow> fragment \<Rightarrow> bool" where
  "builtFrom amb totalArea cells m f \<longleftrightarrow>
     frag_id f < m \<and>
     3 \<le> length (cells ! frag_id f) \<and>
     totalArea * (1 / 100) \<le> \<bar>polygonArea (cells ! frag_id f)\<bar> \<and>
     (\<exists>k. polygon f = fst (addTornEdgeNoise amb (cells ! frag_id f) 2 1 k))"


text \<open>
  The quantity whose sign \<open>isInside\<close> tests: positive on the left of the directed
  line from \<open>a\<close> to \<open>b\<close>, zero on it.
\<close>

definition edgeSide :: "point \<Rightarrow> point \<Rightarrow> point \<Rightarrow> real" where
  "edgeSide a b p = (px b - px a) * (py p - py a) - (py b - py a) * (px p - px a)"

text \<open>An L-shaped outline, wound counter-clockwise; it is not convex.\<close>

definition lShape :: polygon where
  "lShape = [\<lparr>px = 0, py = 0\<rparr>, \<lparr>px = 192, py = 0\<rparr>, \<lparr>px = 192, py = 96\<rparr>,
             \<lparr>px = 96, py = 96\<rparr>, \<lparr>px = 96, py = 192\<rparr>, \<lparr>px = 0, py = 192\<rparr>]"

text \<open>A stream of \<open>Math.random\<close> values that are all 0, and one whose values are all 1/2.\<close>

definition ambientZero :: ambient where
  "ambientZero k = 0"

definition ambientHalf :: ambient where
  "ambientHalf k = 1 / 2"

text \<open>
  A counter-clockwise triangle along the diagonal of its bounding box, thinner than the
  grid of points that rejection sampling can draw from the seeded generator.
\<close>

definition thinTriangle :: polygon where
  "thinTriangle = [\<lparr>px = 0, py = 0\<rparr>, \<lparr>px = 100, py = 100\<rparr>,
                   \<lparr>px = 50 - 1 / 268435456, py = 50 + 1 / 268435456\<rparr>]"

text \<open>
  One step of the ray-casting loop: does the edge between \<open>vi\<close> and \<open>vj\<close> cross the
  ray from \<open>pt\<close>?
\<close>

definition crossesRay :: "point \<Rightarrow> point \<Rightarrow> point \<Rightarrow> bool" where
  "crossesRay pt vi vj \<longleftrightarrow>
     ((py vi > py pt) \<noteq> (py vj > py pt)) \<and>
     px pt < ((px vj - px vi) * (py pt - py vi)) / (py vj - py vi) + px vi"

text \<open>
  The cells that the fragment loop keeps, and the noise added to a cell when every call
  of \<open>Math.random\<close> returns the same value \<open>c\<close>.
\<close>

definition keptCell :: "real \<Rightarrow> polygon \<Rightarrow> bool" where
  "keptCell totalArea cell \<longleftrightarrow>
     \<not> length cell < 3 \<and> \<not> \<bar>polygonArea cell\<bar> < totalArea * (1 / 100)"

definition constMid :: "real \<Rightarrow> real \<Rightarrow> nat \<Rightarrow> point \<Rightarrow> point \<Rightarrow> nat \<Rightarrow> point" where
  "constMid c amount subdivisions a b s =
     (let t = real s / (real subdivisions + 1);
          mx = px a + (px b - px a) * t;
          my = py a + (py b - py a) * t;
          dx = px b - px a;
          dy = py b - py a;
          len = sqrt (dx * dx + dy * dy)
      in if len > 0 then
           \<lparr>px = mx + (- dy / len) * ((c - 1 / 2) * 2 * amount),
            py = my + (dx / len) * ((c - 1 / 2) * 2 * amount)\<rparr>
         else \<lparr>px = mx, py = my\<rparr>)"

definition constNoise :: "real \<Rightarrow> polygon \<Rightarrow> polygon" where
  "constNoise c cell =
     concat (map (\<lambda>i. [cell ! i, constMid c 2 1 (cell ! i) (cell ! ((i + 1) mod length cell)) 1])
                 [0..<length cell])"

text \<open>
  The seeds of the thin triangle after one and after two relaxation steps, and the two
  non-empty cells of the final Voronoi step.
\<close>

definition thinSeeds0 :: "point list" where
  "thinSeeds0 = [\<lparr>px = 50, py = 50\<rparr>, \<lparr>px = 30, py = 30\<rparr>, \<lparr>px = 70, py = 70\<rparr>]"

definition thinSeeds1 :: "point list" where
  "thinSeeds1 = [\<lparr>px = 50, py = 50\<rparr>,
     \<lparr>px = 53687091199 / 805306368, py = 17895697067 / 268435456\<rparr>,
     \<lparr>px = 8947848533 / 268435456, py = 26843545601 / 805306368\<rparr>]"

definition thinSeeds2 :: "point list" where
  "thinSeeds2 = [\<lparr>px = 50, py = 50\<rparr>,
     \<lparr>px = 8947848533 / 268435456, py = 26843545601 / 805306368\<rparr>,
     \<lparr>px = 53687091199 / 805306368, py = 17895697067 / 268435456\<rparr>]"

definition thinUpper :: polygon where
  "thinUpper = [\<lparr>px = 13421772799 / 268435456, py = 13421772801 / 268435456\<rparr>,
     \<lparr>px = 50, py = 50\<rparr>,
     \<lparr>px = 100, py = 100\<rparr>]"

definition thinLower :: polygon where
  "thinLower = [\<lparr>px = 13421772799 / 268435456, py = 13421772801 / 268435456\<rparr>,
     \<lparr>px = 0, py = 0\<rparr>,
     \<lparr>px = 50, py = 50\<rparr>,
     \<lparr>px = 13421772799 / 268435456, py = 13421772801 / 268435456\<rparr>]"

section \<open>Concrete runs without a seed\<close>

text \<open>
  Without a seed the seed points are drawn from \<open>Math.random\<close>. The runs below fix
  the values it returns so that every seed and every cell of the run has integer or dyadic
  coordinates, which doubles represent exactly.

  \<open>ambientOf\<close> is the stream of \<open>Math.random\<close> values that starts with the given
  numbers and continues with 1/2; \<open>drawPoint\<close> is the point that rejection sampling
  makes from the \<open>i\<close>-th pair of values of a stream.
\<close>

definition ambientOf :: "real list \<Rightarrow> ambient" where
  "ambientOf rs k = (if k < length rs then rs ! k else 1 / 2)"

definition drawPoint :: "ambient \<Rightarrow> bounds \<Rightarrow> nat \<Rightarrow> point" where
  "drawPoint amb b i =
     \<lparr>px = minX b + amb (2 * i) * (maxX b - minX b),
      py = minY b + amb (2 * i + 1) * (maxY b - minY b)\<rparr>"

text \<open>
  A right triangle of side 96, wound counter-clockwise, and the same triangle at side
  \<open>2^-20\<close>. The 26 values of \<open>Math.random\<close> place 13 seeds on the line
  \<open>x + y = 66\<close> of the large triangle (all of them inside it), and at the same
  relative positions in the small one.
\<close>

definition rightTriangle :: polygon where
  "rightTriangle = [\<lparr>px = 0, py = 0\<rparr>, \<lparr>px = 96, py = 0\<rparr>, \<lparr>px = 0, py = 96\<rparr>]"


definition triDraws :: "real list" where
  "triDraws =
     [1 / 4, 7 / 16, 17 / 64, 27 / 64, 9 / 32, 13 / 32, 19 / 64, 25 / 64, 5 / 16, 3 / 8,
      21 / 64, 23 / 64, 11 / 32, 11 / 32, 23 / 64, 21 / 64, 3 / 8, 5 / 16, 25 / 64,
      19 / 64, 13 / 32, 9 / 32, 27 / 64, 17 / 64, 7 / 16, 1 / 4]"

definition triSeeds0 :: "point list" where
  "triSeeds0 =
     [\<lparr>px = 24, py = 42\<rparr>, \<lparr>px = 51 / 2, py = 81 / 2\<rparr>,
      \<lparr>px = 27, py = 39\<rparr>, \<lparr>px = 57 / 2, py = 75 / 2\<rparr>,
      \<lparr>px = 30, py = 36\<rparr>, \<lparr>px = 63 / 2, py = 69 / 2\<rparr>,
      \<lparr>px = 33, py = 33\<rparr>, \<lparr>px = 69 / 2, py = 63 / 2\<rparr>,
      \<lparr>px = 36, py = 30\<rparr>, \<lparr>px = 75 / 2, py = 57 / 2\<rparr>,
      \<lparr>px = 39, py = 27\<rparr>, \<lparr>px = 81 / 2, py = 51 / 2\<rparr>,
      \<lparr>px = 42, py = 24\<rparr>]"

text \<open>The seeds after one and after two relaxation steps, and the two non-empty cells.\<close>

definition triSeeds1 :: "point list" where
  "triSeeds1 =
     [\<lparr>px = 48, py = 16\<rparr>, \<lparr>px = 51 / 2, py = 81 / 2\<rparr>,
      \<lparr>px = 27, py = 39\<rparr>, \<lparr>px = 57 / 2, py = 75 / 2\<rparr>,
      \<lparr>px = 30, py = 36\<rparr>, \<lparr>px = 63 / 2, py = 69 / 2\<rparr>,
      \<lparr>px = 33, py = 33\<rparr>, \<lparr>px = 69 / 2, py = 63 / 2\<rparr>,
      \<lparr>px = 36, py = 30\<rparr>, \<lparr>px = 75 / 2, py = 57 / 2\<rparr>,
      \<lparr>px = 39, py = 27\<rparr>, \<lparr>px = 81 / 2, py = 51 / 2\<rparr>,
      \<lparr>px = 16, py = 48\<rparr>]"

definition triSeeds2 :: "point list" where
  "triSeeds2 =
     [\<lparr>px = 16, py = 48\<rparr>, \<lparr>px = 51 / 2, py = 81 / 2\<rparr>,
      \<lparr>px = 27, py = 39\<rparr>, \<lparr>px = 57 / 2, py = 75 / 2\<rparr>,
      \<lparr>px = 30, py = 36\<rparr>, \<lparr>px = 63 / 2, py = 69 / 2\<rparr>,
      \<lparr>px = 33, py = 33\<rparr>, \<lparr>px = 69 / 2, py = 63 / 2\<rparr>,
      \<lparr>px = 36, py = 30\<rparr>, \<lparr>px = 75 / 2, py = 57 / 2\<rparr>,
      \<lparr>px = 39, py = 27\<rparr>, \<lparr>px = 81 / 2, py = 51 / 2\<rparr>,
      \<lparr>px = 48, py = 16\<rparr>]"

definition triLower :: polygon where
  "triLower = [\<lparr>px = 48, py = 48\<rparr>, \<lparr>px = 0, py = 0\<rparr>,
      \<lparr>px = 96, py = 0\<rparr>]"

definition triUpper :: polygon where
  "triUpper = [\<lparr>px = 0, py = 0\<rparr>, \<lparr>px = 0, py = 0\<rparr>,
      \<lparr>px = 48, py = 48\<rparr>, \<lparr>px = 0, py = 96\<rparr>]"


text \<open>
  Five pairs of values of \<open>Math.random\<close> that place five seeds on the line \<open>x + y = 96\<close>
  of the L-shaped outline, the seeds after one and two relaxation steps, and the two
  non-empty cells.
\<close>

definition lDraws :: "real list" where
  "lDraws = [1 / 8, 3 / 8, 3 / 16, 5 / 16, 1 / 4, 1 / 4, 5 / 16, 3 / 16, 3 / 8, 1 / 8]"

definition lSeeds0 :: "point list" where
  "lSeeds0 =
     [\<lparr>px = 24, py = 72\<rparr>, \<lparr>px = 36, py = 60\<rparr>,
      \<lparr>px = 48, py = 48\<rparr>, \<lparr>px = 60, py = 36\<rparr>,
      \<lparr>px = 72, py = 24\<rparr>]"

definition lSeeds1 :: "point list" where
  "lSeeds1 =
     [\<lparr>px = 64, py = 32\<rparr>, \<lparr>px = 36, py = 60\<rparr>,
      \<lparr>px = 48, py = 48\<rparr>, \<lparr>px = 60, py = 36\<rparr>,
      \<lparr>px = 32, py = 64\<rparr>]"

definition lSeeds2 :: "point list" where
  "lSeeds2 =
     [\<lparr>px = 32, py = 64\<rparr>, \<lparr>px = 36, py = 60\<rparr>,
      \<lparr>px = 48, py = 48\<rparr>, \<lparr>px = 60, py = 36\<rparr>,
      \<lparr>px = 64, py = 32\<rparr>]"

definition lLower :: polygon where
  "lLower = [\<lparr>px = 96, py = 96\<rparr>, \<lparr>px = 96, py = 96\<rparr>,
      \<lparr>px = 0, py = 0\<rparr>, \<lparr>px = 96, py = 0\<rparr>]"

definition lUpper :: polygon where
  "lUpper = [\<lparr>px = 0, py = 96\<rparr>, \<lparr>px = 0, py = 0\<rparr>,
      \<lparr>px = 0, py = 0\<rparr>, \<lparr>px = 96, py = 96\<rparr>]"

section \<open>Bisector orientation\<close>

lemma bisector_cross:
  "(px (bisectorB si sj) - px (bisectorA si sj)) * (py p - py (bisectorA si sj))
     - (py (bisectorB si sj) - py (bisectorA si sj)) * (px p - px (bisectorA si sj))
   = sqDist p si - sqDist p sj"
  by (simp add: bisectorA_def bisectorB_def Let_def sqDist_def field_simps)

lemma isInside_bisector:
  "isInside p (bisectorA si sj) (bisectorB si sj) \<longleftrightarrow> sqDist p sj \<le> sqDist p si"
  unfolding isInside_def bisector_cross by simp

lemmas clip_ev = clipPolygonByLine_def clipEdge_def clipEdgeStep_def pushInter_def
  lineIntersection_def isInside_def Let_def clipPolygon_def clipLoop.simps

lemmas cell_ev = computeVoronoiCells_def voronoiCell_def cellLoop.simps bigBox_def
  boundsStep_def bisectorA_def bisectorB_def

lemma cells_two_seeds:
  "computeVoronoiCells [seedL, seedR] sq4 =
     [[\<lparr>px = 2, py = 4\<rparr>, \<lparr>px = 2, py = 0\<rparr>, \<lparr>px = 4, py = 0\<rparr>, \<lparr>px = 4, py = 4\<rparr>],
      [\<lparr>px = 0, py = 4\<rparr>, \<lparr>px = 0, py = 0\<rparr>, \<lparr>px = 2, py = 0\<rparr>, \<lparr>px = 2, py = 4\<rparr>]]"
  by (simp add: cell_ev clip_ev sq4_def seedL_def seedR_def)

section \<open>Degenerate results of clipping\<close>

lemma clipLoop_Nil: "clipLoop clip i [] = []"
  by (simp add: clipLoop.simps)

lemma voronoiCell_length:
  "length (voronoiCell seeds poly i) = 0 \<or> 3 \<le> length (voronoiCell seeds poly i)"
  by (simp add: voronoiCell_def Let_def)

section \<open>The snap test\<close>

lemma normalizeAngle_range: "0 \<le> normalizeAngle r \<and> normalizeAngle r < 2 * pi"
proof -
  have y: "0 < 2 * pi" by simp
  have "of_int \<lfloor>r / (2 * pi)\<rfloor> * (2 * pi) \<le> r"
    using y by (rule floor_divide_lower)
  moreover have "r < (of_int \<lfloor>r / (2 * pi)\<rfloor> + 1) * (2 * pi)"
    using y by (rule floor_divide_upper)
  ultimately show ?thesis
    by (simp add: normalizeAngle_def algebra_simps)
qed

lemma js_normalize:
  "(if jsMod r (pi * 2) < 0 then jsMod r (pi * 2) + pi * 2 else jsMod r (pi * 2)) = normalizeAngle r"
proof (cases "r < 0")
  case False
  then have "\<not> r / (pi * 2) < 0" by (simp add: field_simps)
  then have m: "jsMod r (pi * 2) = normalizeAngle r"
    by (simp add: jsMod_def jsTrunc_def normalizeAngle_def mult.commute)
  with normalizeAngle_range [of r] show ?thesis by simp
next
  case True
  then have neg: "r / (pi * 2) < 0" by (simp add: field_simps)
  show ?thesis
  proof (cases "r / (pi * 2) = of_int \<lfloor>r / (pi * 2)\<rfloor>")
    case True
    then have c: "\<lceil>r / (pi * 2)\<rceil> = \<lfloor>r / (pi * 2)\<rfloor>" by (simp add: ceiling_altdef)
    have m: "jsMod r (pi * 2) = normalizeAngle r"
      using neg c by (simp add: jsMod_def jsTrunc_def normalizeAngle_def mult.commute)
    with normalizeAngle_range [of r] show ?thesis by simp
  next
    case False
    then have c: "\<lceil>r / (pi * 2)\<rceil> = \<lfloor>r / (pi * 2)\<rfloor> + 1" by (simp add: ceiling_altdef)
    have m: "jsMod r (pi * 2) = normalizeAngle r - pi * 2"
      using neg c by (simp add: jsMod_def jsTrunc_def normalizeAngle_def algebra_simps)
    with normalizeAngle_range [of r] show ?thesis by simp
  qed
qed

lemma checkSnap_refines: "checkSnap frag anchor d tol = checkSnap_spec frag anchor d tol"
  unfolding checkSnap_def Let_def js_normalize checkSnap_spec_def euclid_def snapTarget_def
  by (simp add: power2_eq_square mult.commute)

lemma normalize_small: "0 \<le> r \<Longrightarrow> r < 1 \<Longrightarrow> normalizeAngle r = r"
proof -
  assume a: "0 \<le> r" "r < 1"
  have p: "2 \<le> pi" by (rule pi_ge_two)
  have "0 \<le> r / (2 * pi)" using a by simp
  moreover have "r / (2 * pi) < 1" using a p by (simp add: field_simps)
  ultimately have "\<lfloor>r / (2 * pi)\<rfloor> = 0" by linarith
  then show ?thesis by (simp add: normalizeAngle_def)
qed

section \<open>Counts in the generation pipeline\<close>

lemma randomPointsLoop_bounds:
  "length (fst (randomPointsLoop poly n rng b points attempts st)) \<le> max (length points) n \<and>
   fst (snd (randomPointsLoop poly n rng b points attempts st)) \<le> max attempts (n * 200)"
proof (induction poly n rng b points attempts st rule: randomPointsLoop.induct)
  case (1 poly n rng b points attempts st)
  show ?case
  proof (cases "length points < n \<and> attempts < n * 200")
    case False
    then show ?thesis by (subst (1 2) randomPointsLoop.simps) auto
  next
    case True
    let ?smp = "samplePoint rng b st"
    let ?pts = "if pointInPolygon (fst ?smp) poly then points @ [fst ?smp] else points"
    have eq: "randomPointsLoop poly n rng b points attempts st =
              randomPointsLoop poly n rng b ?pts (attempts + 1) (snd ?smp)"
      using True by (subst randomPointsLoop.simps) (simp add: Let_def)
    have ih: "length (fst (randomPointsLoop poly n rng b ?pts (attempts + 1) (snd ?smp)))
                \<le> max (length ?pts) n \<and>
              fst (snd (randomPointsLoop poly n rng b ?pts (attempts + 1) (snd ?smp)))
                \<le> max (attempts + 1) (n * 200)"
      using "1.IH" [OF True refl] .
    have "max (length ?pts) n \<le> max (length points) n" using True by auto
    moreover have "max (attempts + 1) (n * 200) \<le> max attempts (n * 200)" using True by auto
    ultimately show ?thesis unfolding eq using ih by linarith
  qed
qed

lemma randomPointsInPolygon_bounds:
  "length (fst (randomPointsInPolygon poly n rng st)) \<le> n \<and>
   fst (snd (randomPointsInPolygon poly n rng st)) \<le> n * 200"
  using randomPointsLoop_bounds [of poly n rng "polygonBounds poly" "[]" 0 st]
  by (simp add: randomPointsInPolygon_def)

lemma length_computeVoronoiCells [simp]: "length (computeVoronoiCells seeds poly) = length seeds"
  by (simp add: computeVoronoiCells_def)

lemma length_relaxOnce [simp]: "length (relaxOnce current poly) = length current"
  by (simp add: relaxOnce_def Let_def)

lemma length_lloydRelax [simp]: "length (lloydRelax seeds poly k) = length seeds"
  by (induction k arbitrary: seeds) simp_all


lemma length_fallbackSeeds [simp]: "length (fallbackSeeds outline) = 3"
  by (simp add: fallbackSeeds_def Let_def)

lemma sampleSeeds_bounds:
  "length (fst (sampleSeeds outline n seed amb)) \<le> (case n of Count k \<Rightarrow> k | NotANumber \<Rightarrow> 0) \<and>
   fst (snd (sampleSeeds outline n seed amb)) \<le> (case n of Count k \<Rightarrow> 200 * k | NotANumber \<Rightarrow> 0)"
proof (cases n)
  case (Count k)
  then show ?thesis
    using randomPointsInPolygon_bounds
    by (simp add: sampleSeeds_def Let_def mult.commute)
next
  case NotANumber
  then show ?thesis by (simp add: sampleSeeds_def Let_def)
qed

lemma initialSeeds_length:
  "3 \<le> length (initialSeeds outline n seed amb) \<and>
   length (initialSeeds outline n seed amb) \<le> max 3 (case n of Count k \<Rightarrow> k | NotANumber \<Rightarrow> 0)"
  using sampleSeeds_bounds [of outline n seed amb]
  by (auto simp: initialSeeds_def Let_def)

lemma length_fractureCells:
  "length (fractureCells outline difficulty seed amb)
     = length (initialSeeds outline (pieceCount difficulty) seed amb)"
  by (simp add: fractureCells_def)

lemma buildFragment_inv:
  assumes "\<forall>f \<in> set (fst acc). builtFrom amb totalArea cells i f"
    and "length (fst acc) \<le> i" and "sorted_wrt (<) (map frag_id (fst acc))"
  shows "(\<forall>f \<in> set (fst (buildFragment amb totalArea cells i acc)).
            builtFrom amb totalArea cells (Suc i) f) \<and>
         length (fst (buildFragment amb totalArea cells i acc)) \<le> Suc i \<and>
         sorted_wrt (<) (map frag_id (fst (buildFragment amb totalArea cells i acc)))"
proof -
  have mono: "builtFrom amb totalArea cells (Suc i) f" if "builtFrom amb totalArea cells i f" for f
    using that by (auto simp: builtFrom_def)
  have lt: "\<forall>f \<in> set (fst acc). frag_id f < i"
    using assms(1) by (auto simp: builtFrom_def)
  show ?thesis
    using assms mono lt
    by (auto simp: buildFragment_def Let_def sorted_wrt_append builtFrom_def)
qed

lemma fold_buildFragment_inv:
  assumes "\<forall>f \<in> set (fst acc). builtFrom amb totalArea cells i f"
    and "length (fst acc) \<le> i" and "sorted_wrt (<) (map frag_id (fst acc))"
  shows "(\<forall>f \<in> set (fst (fold (buildFragment amb totalArea cells) [i..<i + m] acc)).
            builtFrom amb totalArea cells (i + m) f) \<and>
         length (fst (fold (buildFragment amb totalArea cells) [i..<i + m] acc)) \<le> i + m \<and>
         sorted_wrt (<) (map frag_id (fst (fold (buildFragment amb totalArea cells) [i..<i + m] acc)))"
  using assms
proof (induction m arbitrary: i acc)
  case 0
  then show ?case by simp
next
  case (Suc m)
  have up: "[i..<i + Suc m] = i # [Suc i..<Suc i + m]"
    by (simp add: upt_conv_Cons)
  from buildFragment_inv [OF Suc.prems]
  have a: "\<forall>f \<in> set (fst (buildFragment amb totalArea cells i acc)).
            builtFrom amb totalArea cells (Suc i) f"
    and b: "length (fst (buildFragment amb totalArea cells i acc)) \<le> Suc i"
    and c: "sorted_wrt (<) (map frag_id (fst (buildFragment amb totalArea cells i acc)))"
    by blast+
  from Suc.IH [OF a b c] show ?case unfolding up by simp
qed

lemma generateFragments_built:
  "(\<forall>f \<in> set (generateFragments outline difficulty seed amb).
      builtFrom amb \<bar>polygonArea outline\<bar> (fractureCells outline difficulty seed amb)
        (length (fractureCells outline difficulty seed amb)) f) \<and>
   length (generateFragments outline difficulty seed amb)
     \<le> length (fractureCells outline difficulty seed amb) \<and>
   distinct (map frag_id (generateFragments outline difficulty seed amb))"
proof -
  let ?cells = "fractureCells outline difficulty seed amb"
  let ?k0 = "snd (snd (snd (sampleSeeds outline (pieceCount difficulty) seed amb)))"
  have "(\<forall>f \<in> set (fst (fold (buildFragment amb \<bar>polygonArea outline\<bar> ?cells)
                             [0..<0 + length ?cells] ([], ?k0))).
            builtFrom amb \<bar>polygonArea outline\<bar> ?cells (0 + length ?cells) f) \<and>
         length (fst (fold (buildFragment amb \<bar>polygonArea outline\<bar> ?cells)
                             [0..<0 + length ?cells] ([], ?k0))) \<le> 0 + length ?cells \<and>
         sorted_wrt (<) (map frag_id (fst (fold (buildFragment amb \<bar>polygonArea outline\<bar> ?cells)
                             [0..<0 + length ?cells] ([], ?k0))))"
    by (rule fold_buildFragment_inv) simp_all
  then show ?thesis
    by (simp add: generateFragments_def Let_def strict_sorted_iff)
qed

section \<open>Half-planes kept by clipping\<close>

lemma isInside_edgeSide: "isInside p a b \<longleftrightarrow> 0 \<le> edgeSide a b p"
  by (simp add: isInside_def edgeSide_def)

lemma edgeSide_affine:
  "edgeSide a b \<lparr>px = px p1 + t * (px p2 - px p1), py = py p1 + t * (py p2 - py p1)\<rparr>
     = edgeSide a b p1 + t * (edgeSide a b p2 - edgeSide a b p1)"
  by (simp add: edgeSide_def algebra_simps)

lemma lineIntersection_Some:
  assumes "lineIntersection p1 p2 a b = Some q"
  shows "edgeSide a b p1 - edgeSide a b p2 \<noteq> 0 \<and>
         q = \<lparr>px = px p1 + (edgeSide a b p1 / (edgeSide a b p1 - edgeSide a b p2)) * (px p2 - px p1),
              py = py p1 + (edgeSide a b p1 / (edgeSide a b p1 - edgeSide a b p2)) * (py p2 - py p1)\<rparr>"
proof -
  let ?denom = "(px p1 - px p2) * (py a - py b) - (py p1 - py p2) * (px a - px b)"
  let ?num = "(px p1 - px a) * (py a - py b) - (py p1 - py a) * (px a - px b)"
  have d: "?denom = edgeSide a b p1 - edgeSide a b p2"
    by (simp add: edgeSide_def algebra_simps)
  have n: "?num = edgeSide a b p1"
    by (simp add: edgeSide_def algebra_simps)
  from assms have nz: "\<not> \<bar>?denom\<bar> < 1 / 10000000000"
    by (auto simp: lineIntersection_def Let_def split: if_splits)
  then have "?denom \<noteq> 0" by auto
  moreover from assms nz have
    "q = \<lparr>px = px p1 + (?num / ?denom) * (px p2 - px p1),
          py = py p1 + (?num / ?denom) * (py p2 - py p1)\<rparr>"
    by (simp add: lineIntersection_def Let_def)
  ultimately show ?thesis unfolding d n by simp
qed

lemma lineIntersection_on_line:
  assumes "lineIntersection p1 p2 a b = Some q"
  shows "edgeSide a b q = 0"
proof -
  from lineIntersection_Some [OF assms]
  have nz: "edgeSide a b p1 - edgeSide a b p2 \<noteq> 0"
    and q: "q = \<lparr>px = px p1 + (edgeSide a b p1 / (edgeSide a b p1 - edgeSide a b p2)) * (px p2 - px p1),
              py = py p1 + (edgeSide a b p1 / (edgeSide a b p1 - edgeSide a b p2)) * (py p2 - py p1)\<rparr>"
    by blast+
  show ?thesis
    unfolding q edgeSide_affine using nz by (simp add: field_simps)
qed

lemma lineIntersection_between:
  assumes i: "lineIntersection p1 p2 a b = Some q"
    and differ: "isInside p1 a b \<noteq> isInside p2 a b"
    and c1: "isInside p1 c d" and c2: "isInside p2 c d"
  shows "isInside q c d"
proof -
  define f1 where "f1 = edgeSide a b p1"
  define f2 where "f2 = edgeSide a b p2"
  define t where "t = f1 / (f1 - f2)"
  from lineIntersection_Some [OF i]
  have nz: "f1 - f2 \<noteq> 0"
    and q: "q = \<lparr>px = px p1 + t * (px p2 - px p1), py = py p1 + t * (py p2 - py p1)\<rparr>"
    unfolding f1_def f2_def t_def by blast+
  from differ have "(0 \<le> f1 \<and> f2 < 0) \<or> (f1 < 0 \<and> 0 \<le> f2)"
    unfolding isInside_edgeSide f1_def f2_def by auto
  then have t01: "0 \<le> t \<and> t \<le> 1"
  proof
    assume h: "0 \<le> f1 \<and> f2 < 0"
    then have "0 < f1 - f2" by simp
    with h show ?thesis unfolding t_def by (simp add: field_simps)
  next
    assume h: "f1 < 0 \<and> 0 \<le> f2"
    then have "f1 - f2 < 0" by simp
    with h show ?thesis unfolding t_def by (simp add: field_simps)
  qed
  have g1: "0 \<le> edgeSide c d p1" and g2: "0 \<le> edgeSide c d p2"
    using c1 c2 by (simp_all add: isInside_edgeSide)
  have "edgeSide c d q = (1 - t) * edgeSide c d p1 + t * edgeSide c d p2"
    unfolding q edgeSide_affine by (simp add: algebra_simps)
  moreover have "0 \<le> (1 - t) * edgeSide c d p1" using t01 g1 by simp
  moreover have "0 \<le> t * edgeSide c d p2" using t01 g2 by simp
  ultimately show ?thesis by (simp add: isInside_edgeSide)
qed

text \<open>One pass of the clipper.\<close>

lemma set_pushInter:
  "set (pushInter h out) = set out \<union> (case h of None \<Rightarrow> {} | Some q \<Rightarrow> {q})"
  by (simp add: pushInter_def split: option.splits)

lemma clipEdgeStep_kept:
  assumes "\<forall>v \<in> set out. isInside v a b"
  shows "\<forall>v \<in> set (clipEdgeStep input a b j out). isInside v a b"
  using assms
  by (auto simp: clipEdgeStep_def Let_def set_pushInter isInside_edgeSide
           dest: lineIntersection_on_line split: option.splits)

lemma clipEdgeStep_preserves:
  assumes "\<forall>v \<in> set out. isInside v c d" and "\<forall>v \<in> set input. isInside v c d"
    and "j < length input"
  shows "\<forall>v \<in> set (clipEdgeStep input a b j out). isInside v c d"
proof -
  let ?cur = "input ! j"
  let ?prev = "input ! ((j + length input - 1) mod length input)"
  have cur: "isInside ?cur c d" using assms(2,3) by simp
  from assms(3) have "0 < length input" by auto
  then have "(j + length input - 1) mod length input < length input"
    by (rule mod_less_divisor)
  then have prev: "isInside ?prev c d" using assms(2) by simp
  have hit: "isInside q c d"
    if "lineIntersection ?prev ?cur a b = Some q" "isInside ?prev a b \<noteq> isInside ?cur a b" for q
    using lineIntersection_between [OF that prev cur] .
  show ?thesis
    using assms(1) cur hit
    by (auto simp: clipEdgeStep_def Let_def set_pushInter split: option.splits)
qed

lemma clipEdge_kept: "\<forall>v \<in> set (clipEdge input a b). isInside v a b"
  unfolding clipEdge_def
  by (rule fold_invariant [where Q = "\<lambda>_. True"]) (simp_all add: clipEdgeStep_kept)

lemma clipEdge_preserves:
  assumes "\<forall>v \<in> set input. isInside v c d"
  shows "\<forall>v \<in> set (clipEdge input a b). isInside v c d"
  unfolding clipEdge_def
proof (rule fold_invariant [where Q = "\<lambda>j. j < length input"])
  show "\<And>j. j \<in> set [0..<length input] \<Longrightarrow> j < length input" by simp
  show "\<forall>v \<in> set []. isInside v c d" by simp
  show "\<And>j out. j < length input \<Longrightarrow> \<forall>v \<in> set out. isInside v c d
          \<Longrightarrow> \<forall>v \<in> set (clipEdgeStep input a b j out). isInside v c d"
    using clipEdgeStep_preserves assms by blast
qed


text \<open>The loop over the clip edges.\<close>

lemma clipLoop_preserves:
  "\<forall>v \<in> set out. isInside v c d \<Longrightarrow> \<forall>v \<in> set (clipLoop clip i out). isInside v c d"
proof (induction clip i out rule: clipLoop.induct)
  case (1 clip i out)
  show ?case
  proof (cases "i < length clip \<and> length out \<noteq> 0")
    case False
    then show ?thesis using "1.prems" by (subst clipLoop.simps) auto
  next
    case True
    let ?next = "clipEdge out (clip ! i) (clip ! ((i + 1) mod length clip))"
    have eq: "clipLoop clip i out = clipLoop clip (i + 1) ?next"
      using True by (subst clipLoop.simps) simp
    have "\<forall>v \<in> set ?next. isInside v c d"
      using "1.prems" by (rule clipEdge_preserves)
    then show ?thesis
      unfolding eq using True by (intro "1.IH") simp_all
  qed
qed

lemma clipLoop_kept:
  "i \<le> k \<Longrightarrow> k < length clip \<Longrightarrow>
   \<forall>v \<in> set (clipLoop clip i out). isInside v (clip ! k) (clip ! ((k + 1) mod length clip))"
proof (induction clip i out rule: clipLoop.induct)
  case (1 clip i out)
  from "1.prems" have il: "i < length clip" by simp
  show ?case
  proof (cases "length out = 0")
    case True
    then show ?thesis using il by (subst clipLoop.simps) simp
  next
    case False
    let ?next = "clipEdge out (clip ! i) (clip ! ((i + 1) mod length clip))"
    have eq: "clipLoop clip i out = clipLoop clip (i + 1) ?next"
      using False il by (subst clipLoop.simps) simp
    show ?thesis
    proof (cases "i = k")
      case True
      have "\<forall>v \<in> set ?next. isInside v (clip ! k) (clip ! ((k + 1) mod length clip))"
        unfolding True by (rule clipEdge_kept)
      then show ?thesis unfolding eq by (rule clipLoop_preserves)
    next
      case ne: False
      with "1.prems" have "i + 1 \<le> k" by simp
      then show ?thesis
        unfolding eq using il False "1.prems"(2) by (intro "1.IH") simp_all
    qed
  qed
qed

lemma clipPolygon_kept:
  "k < length clip \<Longrightarrow>
   \<forall>v \<in> set (clipPolygon subject clip). isInside v (clip ! k) (clip ! ((k + 1) mod length clip))"
  using clipLoop_kept [of 0 k clip subject] by (simp add: clipPolygon_def)

text \<open>What every vertex of a cell satisfies.\<close>

lemma voronoiCell_cases:
  "voronoiCell seeds poly i = [] \<or>
   (3 \<le> length (cellLoop seeds i 0 (bigBox poly)) \<and>
    voronoiCell seeds poly i = clipPolygon (cellLoop seeds i 0 (bigBox poly)) poly)"
  by (auto simp: voronoiCell_def Let_def)

lemma voronoiCell_outline:
  assumes "e < length poly"
  shows "\<forall>v \<in> set (voronoiCell seeds poly i).
           isInside v (poly ! e) (poly ! ((e + 1) mod length poly))"
  using voronoiCell_cases [of seeds poly i] clipPolygon_kept [OF assms]
  by auto

section \<open>Sampling in a very thin triangle\<close>

lemma pointInPolygon_triangle:
  "pointInPolygon pt [a, b, c] = ((crossesRay pt a c \<noteq> crossesRay pt b a) \<noteq> crossesRay pt c b)"
  by (simp add: pointInPolygon_def crossesRay_def Let_def)

lemma thin_t1:
  "crossesRay \<lparr>px = x, py = y\<rparr> \<lparr>px = 100, py = 100\<rparr> \<lparr>px = 0, py = 0\<rparr>
     \<longleftrightarrow> 0 \<le> y \<and> y < 100 \<and> x < y"
  by (auto simp: crossesRay_def field_simps)

lemma thin_t0:
  "crossesRay \<lparr>px = x, py = y\<rparr> \<lparr>px = 0, py = 0\<rparr> \<lparr>px = 50 - 1 / 268435456, py = 50 + 1 / 268435456\<rparr>
     \<longleftrightarrow> 0 \<le> y \<and> y < 50 + 1 / 268435456 \<and> x * (50 + 1 / 268435456) < (50 - 1 / 268435456) * y"
  by (auto simp: crossesRay_def field_simps)

lemma thin_t2:
  "crossesRay \<lparr>px = x, py = y\<rparr> \<lparr>px = 50 - 1 / 268435456, py = 50 + 1 / 268435456\<rparr> \<lparr>px = 100, py = 100\<rparr>
     \<longleftrightarrow> 50 + 1 / 268435456 \<le> y \<and> y < 100 \<and>
         (x - (50 - 1 / 268435456)) * (50 - 1 / 268435456) < (50 + 1 / 268435456) * (y - (50 + 1 / 268435456))"
  by (auto simp: crossesRay_def field_simps)

lemma thinTriangle_misses:
  assumes "y - x \<le> 0 \<or> 100 / 4294967296 \<le> y - x"
  shows "\<not> pointInPolygon \<lparr>px = x, py = y\<rparr> thinTriangle"
  unfolding thinTriangle_def pointInPolygon_triangle thin_t0 thin_t1 thin_t2
  using assms by (auto simp: algebra_simps)

section \<open>Noise from a constant random source\<close>

lemma fold_noisePoint_const:
  assumes "\<And>k. amb k = c"
  shows "fst (fold (noisePoint amb amount subdivisions a b) ss acc)
           = fst acc @ map (constMid c amount subdivisions a b) ss"
proof (induction ss arbitrary: acc)
  case Nil
  then show ?case by simp
next
  case (Cons s ss)
  have "fst (noisePoint amb amount subdivisions a b s acc)
          = fst acc @ [constMid c amount subdivisions a b s]"
    by (simp add: noisePoint_def constMid_def Let_def assms)
  then show ?case by (simp add: Cons.IH)
qed

lemma noiseEdge_const:
  assumes "\<And>k. amb k = c"
  shows "fst (noiseEdge amb amount sub poly i acc)
           = fst acc @ poly ! i #
             map (constMid c amount sub (poly ! i) (poly ! ((i + 1) mod length poly))) [1..<sub + 1]"
  by (simp add: noiseEdge_def Let_def fold_noisePoint_const [OF assms])

lemma fold_noiseEdge_const:
  assumes "\<And>k. amb k = c"
  shows "fst (fold (noiseEdge amb amount sub poly) is acc)
           = fst acc @ concat (map (\<lambda>i. poly ! i #
               map (constMid c amount sub (poly ! i) (poly ! ((i + 1) mod length poly)))
                   [1..<sub + 1]) is)"
proof (induction "is" arbitrary: acc)
  case Nil
  then show ?case by simp
next
  case (Cons i "is")
  show ?case by (simp add: Cons.IH noiseEdge_const [OF assms])
qed

lemma addTornEdgeNoise_const:
  assumes "\<And>k. amb k = c" and "3 \<le> length cell"
  shows "fst (addTornEdgeNoise amb cell 2 1 k) = constNoise c cell"
proof -
  have "fst (addTornEdgeNoise amb cell 2 1 k)
          = fst (fold (noiseEdge amb 2 1 cell) [0..<length cell] ([], k))"
    using assms(2) by (simp add: addTornEdgeNoise_def)
  also have "\<dots> = concat (map (\<lambda>i. cell ! i #
               map (constMid c 2 1 (cell ! i) (cell ! ((i + 1) mod length cell)))
                   [1..<1 + 1]) [0..<length cell])"
    by (simp only: fold_noiseEdge_const [OF assms(1)] fst_conv append_Nil)
  also have "\<dots> = constNoise c cell"
    by (simp add: constNoise_def)
  finally show ?thesis .
qed

text \<open>Two different constants displace the midpoint of every edge of positive length.\<close>

lemma constMid_differs:
  assumes "c \<noteq> c'" and "a \<noteq> b"
  shows "constMid c 2 1 a b 1 \<noteq> constMid c' 2 1 a b 1"
proof -
  define dx where "dx = px b - px a"
  define dy where "dy = py b - py a"
  define len where "len = sqrt (dx * dx + dy * dy)"
  from assms(2) have "dx \<noteq> 0 \<or> dy \<noteq> 0"
    unfolding dx_def dy_def by (cases a, cases b) auto
  then have "0 < dx * dx + dy * dy"
    by (simp add: sum_squares_gt_zero_iff)
  then have pos: "0 < len" unfolding len_def by simp
  have ne: "(c - 1 / 2) * 2 * 2 \<noteq> (c' - 1 / 2) * 2 * 2" using assms(1) by simp
  show ?thesis
  proof
    assume eq: "constMid c 2 1 a b 1 = constMid c' 2 1 a b 1"
    then have "(- dy / len) * ((c - 1 / 2) * 2 * 2) = (- dy / len) * ((c' - 1 / 2) * 2 * 2)"
      and "(dx / len) * ((c - 1 / 2) * 2 * 2) = (dx / len) * ((c' - 1 / 2) * 2 * 2)"
      using pos unfolding constMid_def Let_def dx_def [symmetric] dy_def [symmetric] len_def [symmetric]
      by simp_all
    with ne have "- dy / len = 0" and "dx / len = 0" by auto
    with pos have "dy = 0" and "dx = 0" by simp_all
    with \<open>dx \<noteq> 0 \<or> dy \<noteq> 0\<close> show False by simp
  qed
qed

lemma constNoise_eq_degenerate:
  assumes "c \<noteq> c'" and "constNoise c cell = constNoise c' cell" and "i < length cell"
  shows "cell ! ((i + 1) mod length cell) = cell ! i"
proof -
  let ?f = "\<lambda>c i. [cell ! i, constMid c 2 1 (cell ! i) (cell ! ((i + 1) mod length cell)) 1]"
  have "map (?f c) [0..<length cell] = map (?f c') [0..<length cell]"
    using assms(2) unfolding constNoise_def
    by (subst (asm) concat_eq_concat_iff) (auto simp: set_zip)
  then have "?f c i = ?f c' i" using assms(3) by auto
  then have "constMid c 2 1 (cell ! i) (cell ! ((i + 1) mod length cell)) 1
           = constMid c' 2 1 (cell ! i) (cell ! ((i + 1) mod length cell)) 1"
    by simp
  with constMid_differs [OF assms(1)] show ?thesis by metis
qed

lemma polygonArea_degenerate:
  assumes "\<And>i. i < length cell \<Longrightarrow> cell ! ((i + 1) mod length cell) = cell ! i"
  shows "polygonArea cell = 0"
proof -
  have "fold (\<lambda>i area.
             (let j = (i + 1) mod length cell
              in area + px (cell ! i) * py (cell ! j) - px (cell ! j) * py (cell ! i)))
          [0..<length cell] 0 = 0"
  proof (rule fold_invariant [where Q = "\<lambda>i. i < length cell" and P = "\<lambda>a. a = 0"])
    show "\<And>i. i \<in> set [0..<length cell] \<Longrightarrow> i < length cell" by simp
    show "(0::real) = 0" by simp
    show "\<And>i a. i < length cell \<Longrightarrow> a = 0 \<Longrightarrow>
       (let j = (i + 1) mod length cell
        in a + px (cell ! i) * py (cell ! j) - px (cell ! j) * py (cell ! i)) = 0"
      using assms by (simp add: Let_def)
  qed
  then show ?thesis by (simp add: polygonArea_def)
qed

lemma constNoise_differs:
  assumes "c \<noteq> c'" and "polygonArea cell \<noteq> 0"
  shows "constNoise c cell \<noteq> constNoise c' cell"
  using assms constNoise_eq_degenerate polygonArea_degenerate by metis

section \<open>The fragments are the kept cells\<close>

lemma buildFragment_ids:
  "map frag_id (fst (buildFragment amb A cells i acc))
     = map frag_id (fst acc) @ (if keptCell A (cells ! i) then [i] else [])"
  by (simp add: buildFragment_def keptCell_def Let_def)

lemma fold_buildFragment_ids:
  "map frag_id (fst (fold (buildFragment amb A cells) is acc))
     = map frag_id (fst acc) @ filter (\<lambda>i. keptCell A (cells ! i)) is"
  by (induction "is" arbitrary: acc) (simp_all add: buildFragment_ids)

lemma generateFragments_ids:
  "map frag_id (generateFragments outline difficulty seed amb)
     = filter (\<lambda>i. keptCell \<bar>polygonArea outline\<bar> (fractureCells outline difficulty seed amb ! i))
         [0..<length (fractureCells outline difficulty seed amb)]"
  by (simp add: generateFragments_def Let_def fold_buildFragment_ids)


lemma buildFragment_polygons_const:
  assumes "\<And>k. amb k = c"
  shows "map polygon (fst (buildFragment amb A cells i acc))
     = map polygon (fst acc) @ (if keptCell A (cells ! i) then [constNoise c (cells ! i)] else [])"
proof -
  have n: "fst (addTornEdgeNoise amb cell 2 (Suc 0) k) = constNoise c cell"
    if "3 \<le> length cell" for cell k
    using addTornEdgeNoise_const [OF assms that] by simp
  show ?thesis
    by (simp add: buildFragment_def keptCell_def Let_def n)
qed

lemma fold_buildFragment_polygons_const:
  assumes "\<And>k. amb k = c"
  shows "map polygon (fst (fold (buildFragment amb A cells) is acc))
     = map polygon (fst acc) @
       map (\<lambda>i. constNoise c (cells ! i)) (filter (\<lambda>i. keptCell A (cells ! i)) is)"
  by (induction "is" arbitrary: acc) (simp_all add: buildFragment_polygons_const [OF assms])

lemma generateFragments_polygons_const:
  assumes "\<And>k. amb k = c"
  shows "map polygon (generateFragments outline difficulty seed amb)
     = map (\<lambda>i. constNoise c (fractureCells outline difficulty seed amb ! i))
         (filter (\<lambda>i. keptCell \<bar>polygonArea outline\<bar> (fractureCells outline difficulty seed amb ! i))
            [0..<length (fractureCells outline difficulty seed amb)])"
  by (simp add: generateFragments_def Let_def fold_buildFragment_polygons_const [OF assms])

text \<open>With a seed, the cells do not depend on \<open>Math.random\<close>.\<close>

lemma sampleSeeds_seeded:
  "sampleSeeds outline n (Some sd) amb = sampleSeeds outline n (Some sd) amb'"
  by (simp add: sampleSeeds_def)

lemma fractureCells_seeded:
  "fractureCells outline difficulty (Some sd) amb = fractureCells outline difficulty (Some sd) amb'"
  by (simp add: fractureCells_def initialSeeds_def sampleSeeds_seeded [of outline _ sd amb amb'])

lemma generateFragments_ambient:
  assumes c: "\<And>k. amb k = c" and c': "\<And>k. amb' k = c'" and ne: "c \<noteq> c'"
    and area: "polygonArea outline \<noteq> 0"
    and some: "generateFragments outline difficulty (Some sd) amb \<noteq> []"
  shows "generateFragments outline difficulty (Some sd) amb
           \<noteq> generateFragments outline difficulty (Some sd) amb'"
proof
  assume eq: "generateFragments outline difficulty (Some sd) amb
                = generateFragments outline difficulty (Some sd) amb'"
  let ?cells = "fractureCells outline difficulty (Some sd) amb"
  let ?K = "filter (\<lambda>i. keptCell \<bar>polygonArea outline\<bar> (?cells ! i)) [0..<length ?cells]"
  have cells': "fractureCells outline difficulty (Some sd) amb' = ?cells"
    by (rule fractureCells_seeded)
  from some have "map frag_id (generateFragments outline difficulty (Some sd) amb) \<noteq> []"
    by simp
  then have "?K \<noteq> []" unfolding generateFragments_ids .
  then obtain i where i: "i \<in> set ?K" by (cases ?K) auto
  then have kept: "keptCell \<bar>polygonArea outline\<bar> (?cells ! i)" by simp
  from eq have "map polygon (generateFragments outline difficulty (Some sd) amb)
                  = map polygon (generateFragments outline difficulty (Some sd) amb')"
    by simp
  then have "map (\<lambda>i. constNoise c (?cells ! i)) ?K = map (\<lambda>i. constNoise c' (?cells ! i)) ?K"
    by (simp only: generateFragments_polygons_const [OF c]
          generateFragments_polygons_const [OF c'] cells')
  with i have "constNoise c (?cells ! i) = constNoise c' (?cells ! i)"
    by (simp only: map_eq_conv)
  with ne have "polygonArea (?cells ! i) = 0"
    using constNoise_differs by blast
  moreover from kept area have "polygonArea (?cells ! i) \<noteq> 0"
    by (auto simp: keptCell_def)
  ultimately show False by simp
qed

text \<open>Every generated fragment starts unplaced.\<close>

lemma generateFragments_unplaced:
  "\<forall>f \<in> set (generateFragments outline difficulty seed amb). \<not> isPlaced f"
  unfolding generateFragments_def Let_def
proof (rule fold_invariant [where Q = "\<lambda>_. True"
          and P = "\<lambda>acc. \<forall>f \<in> set (fst acc). \<not> isPlaced f"])
  show "\<forall>f \<in> set (fst ([], k)). \<not> isPlaced f" for k :: nat by simp
  show "\<forall>f \<in> set (fst (buildFragment amb A cells i acc)). \<not> isPlaced f"
    if "\<forall>f \<in> set (fst acc). \<not> isPlaced f" for A cells i acc
    using that by (auto simp: buildFragment_def Let_def)
qed simp

section \<open>The pipeline on the thin triangle\<close>

text \<open>
  The thin triangle has an area of about \<open>4e-7\<close>. The seeds and cells below are the
  exact ones of the model; the program, in doubles, computes relaxed seeds that differ
  from them from the fifth decimal on.
\<close>

lemma polygonBounds_thinTriangle:
  "polygonBounds thinTriangle = \<lparr>minX = 0, minY = 0, maxX = 100, maxY = 100\<rparr>"
  by (simp add: thinTriangle_def boundsStep_def)

lemma mulberry32_grid: "\<exists>k::nat. fst (mulberry32 s) = real k / 4294967296"
  by (simp only: mulberry32_def Let_def fst_conv) blast

lemma seededRng_grid: "\<exists>k::nat. fst (seededRng st) = real k / 4294967296"
  using mulberry32_grid [of "fst st"] by (simp add: seededRng_def Let_def)

lemma seeded_sample_misses:
  "\<not> pointInPolygon (fst (samplePoint seededRng (polygonBounds thinTriangle) st)) thinTriangle"
proof -
  obtain k1 :: nat where k1: "fst (seededRng st) = real k1 / 4294967296"
    using seededRng_grid by blast
  obtain k2 :: nat where k2: "fst (seededRng (snd (seededRng st))) = real k2 / 4294967296"
    using seededRng_grid by blast
  have smp: "fst (samplePoint seededRng (polygonBounds thinTriangle) st)
               = \<lparr>px = real k1 / 4294967296 * 100, py = real k2 / 4294967296 * 100\<rparr>"
    by (simp add: samplePoint_def Let_def polygonBounds_thinTriangle k1 k2)
  have "k2 \<le> k1 \<or> k1 + 1 \<le> k2" by linarith
  then have "real k2 \<le> real k1 \<or> real k1 + 1 \<le> real k2"
    by (metis of_nat_le_iff of_nat_add of_nat_1)
  then have "real k2 / 4294967296 * 100 - real k1 / 4294967296 * 100 \<le> 0 \<or>
             100 / 4294967296 \<le> real k2 / 4294967296 * 100 - real k1 / 4294967296 * 100"
    by (auto simp: field_simps)
  then show ?thesis unfolding smp by (rule thinTriangle_misses)
qed

lemma randomPointsLoop_misses:
  assumes "\<And>st. \<not> pointInPolygon (fst (samplePoint rng b st)) poly"
  shows "fst (randomPointsLoop poly n rng b [] attempts st) = []"
proof (induction "n * 200 - attempts" arbitrary: attempts st)
  case 0
  then show ?case by (subst randomPointsLoop.simps) simp
next
  case (Suc m)
  show ?case
  proof (cases "0 < n")
    case False
    then show ?thesis by (subst randomPointsLoop.simps) simp
  next
    case True
    from Suc(2) have lt: "attempts < n * 200" by simp
    have eq: "randomPointsLoop poly n rng b [] attempts st
               = randomPointsLoop poly n rng b [] (attempts + 1) (snd (samplePoint rng b st))"
      using True lt assms by (subst randomPointsLoop.simps) (simp add: Let_def)
    from Suc(2) have "m = n * 200 - (attempts + 1)" by simp
    from Suc(1) [OF this] show ?thesis unfolding eq .
  qed
qed

lemma initialSeeds_thinTriangle:
  "initialSeeds thinTriangle n (Some sd) amb = thinSeeds0"
proof -
  have "fst (sampleSeeds thinTriangle n (Some sd) amb) = []"
    by (cases n)
       (simp_all add: sampleSeeds_def randomPointsInPolygon_def
          randomPointsLoop_misses [OF seeded_sample_misses])
  then show ?thesis
    by (simp add: initialSeeds_def fallbackSeeds_def polygonBounds_thinTriangle thinSeeds0_def)
qed

lemmas pipe_ev = cell_ev clip_ev relaxOnce_def polygonCentroid_def polygonArea_def pointInPolygon_def

lemma relax_thin1: "relaxOnce thinSeeds0 thinTriangle = thinSeeds1"
  unfolding thinSeeds0_def thinSeeds1_def
  by (simp add: pipe_ev thinTriangle_def)

lemma relax_thin2: "relaxOnce thinSeeds1 thinTriangle = thinSeeds2"
  unfolding thinSeeds1_def thinSeeds2_def
  by (simp add: pipe_ev thinTriangle_def)

lemma cells_thin: "computeVoronoiCells thinSeeds2 thinTriangle = [[], thinUpper, thinLower]"
  unfolding thinSeeds2_def thinUpper_def thinLower_def
  by (simp add: pipe_ev thinTriangle_def)

lemma fractureCells_thinTriangle:
  "fractureCells thinTriangle difficulty (Some sd) amb = [[], thinUpper, thinLower]"
  by (simp add: fractureCells_def initialSeeds_thinTriangle numeral_2_eq_2
        relax_thin1 relax_thin2 cells_thin)

lemma areas_thin:
  "polygonArea thinTriangle = 25 / 67108864"
  "polygonArea thinUpper = 25 / 134217728"
  "polygonArea thinLower = 25 / 134217728"
  by (simp_all add: polygonArea_def thinTriangle_def thinUpper_def thinLower_def)

lemma lengths_thin: "length thinUpper = 3" "length thinLower = 4"
  by (simp_all add: thinUpper_def thinLower_def)

lemma ids_thin:
  "map frag_id (generateFragments thinTriangle difficulty (Some sd) amb) = [1, 2]"
  unfolding generateFragments_ids fractureCells_thinTriangle
  by (simp add: keptCell_def areas_thin lengths_thin upt_rec)

section \<open>Sampling without rejection\<close>

lemma samplePoint_mathRandom:
  "samplePoint (mathRandom amb) b (w, 2 * i) = (drawPoint amb b i, (w, 2 * (i + 1)))"
  by (simp add: samplePoint_def mathRandom_def drawPoint_def Let_def)

lemma randomPointsLoop_hits:
  assumes "\<forall>p \<in> set (map (drawPoint amb b) [i..<i + m]). pointInPolygon p poly"
    and "length points + m = n" and "attempts + m \<le> n * 200"
  shows "randomPointsLoop poly n (mathRandom amb) b points attempts (w, 2 * i)
           = (points @ map (drawPoint amb b) [i..<i + m], attempts + m, (w, 2 * (i + m)))"
  using assms
proof (induction m arbitrary: i points attempts)
  case 0
  then show ?case by (subst randomPointsLoop.simps) simp
next
  case (Suc m)
  have u: "[i..<i + Suc m] = i # [i + 1..<(i + 1) + m]"
    by (simp add: upt_rec)
  from Suc.prems(1) have hit: "pointInPolygon (drawPoint amb b i) poly"
    and rest: "\<forall>p \<in> set (map (drawPoint amb b) [i + 1..<(i + 1) + m]). pointInPolygon p poly"
    unfolding u by simp_all
  from Suc.prems(2,3) have lt: "length points < n" "attempts < n * 200" by simp_all
  have eq: "randomPointsLoop poly n (mathRandom amb) b points attempts (w, 2 * i)
              = randomPointsLoop poly n (mathRandom amb) b (points @ [drawPoint amb b i])
                  (attempts + 1) (w, 2 * (i + 1))"
    using lt hit by (subst randomPointsLoop.simps) (simp add: samplePoint_mathRandom)
  have "randomPointsLoop poly n (mathRandom amb) b (points @ [drawPoint amb b i])
          (attempts + 1) (w, 2 * (i + 1))
        = ((points @ [drawPoint amb b i]) @ map (drawPoint amb b) [i + 1..<(i + 1) + m],
           (attempts + 1) + m, (w, 2 * ((i + 1) + m)))"
    using rest Suc.prems(2,3) by (intro Suc.IH) simp_all
  then show ?case unfolding eq u by simp
qed

lemma sampleSeeds_hits:
  assumes "map (drawPoint amb (polygonBounds outline)) [0..<n] = ps"
    and "\<forall>p \<in> set ps. pointInPolygon p outline"
  shows "sampleSeeds outline (Count n) None amb = (ps, n, (0, 2 * n))"
  using randomPointsLoop_hits [of amb "polygonBounds outline" 0 n outline "[]" n 0 0] assms
  by (simp add: sampleSeeds_def randomPointsInPolygon_def)

lemma polygonBounds_rightTriangle:
  "polygonBounds rightTriangle = \<lparr>minX = 0, minY = 0, maxX = 96, maxY = 96\<rparr>"
  by (simp add: rightTriangle_def boundsStep_def)

lemma draws_tri:
  "map (drawPoint (ambientOf triDraws) (polygonBounds rightTriangle)) [0..<13] = triSeeds0"
  by (simp add: polygonBounds_rightTriangle drawPoint_def ambientOf_def triDraws_def triSeeds0_def
        upt_rec)

lemma inside_tri: "\<forall>p \<in> set triSeeds0. pointInPolygon p rightTriangle"
  by (simp add: triSeeds0_def pointInPolygon_def rightTriangle_def)

lemma sampleSeeds_rightTriangle:
  "sampleSeeds rightTriangle (Count 13) None (ambientOf triDraws) = (triSeeds0, 13, (0, 26))"
  using sampleSeeds_hits [OF draws_tri inside_tri] by simp

lemma relax_tri1: "relaxOnce triSeeds0 rightTriangle = triSeeds1"
  unfolding triSeeds0_def triSeeds1_def
  by (simp add: pipe_ev rightTriangle_def)

lemma relax_tri2: "relaxOnce triSeeds1 rightTriangle = triSeeds2"
  unfolding triSeeds1_def triSeeds2_def
  by (simp add: pipe_ev rightTriangle_def)

lemma cells_tri:
  "computeVoronoiCells triSeeds2 rightTriangle
     = [triLower, [], [], [], [], [], [], [], [], [], [], [], triUpper]"
  unfolding triSeeds2_def triLower_def triUpper_def
  by (simp add: pipe_ev rightTriangle_def)

lemma pieceCount_hard: "pieceCount (Str ''hard'') = Count 13"
  by (simp add: pieceCount_def lookupDifficulty_def PIECE_COUNTS_def)

lemma pieceCount_easy: "pieceCount (Str ''easy'') = Count 5"
  by (simp add: pieceCount_def lookupDifficulty_def PIECE_COUNTS_def)

lemma length_triSeeds0: "length triSeeds0 = 13"
  by (simp add: triSeeds0_def)

lemma fractureCells_rightTriangle:
  "fractureCells rightTriangle (Str ''hard'') None (ambientOf triDraws)
     = [triLower, [], [], [], [], [], [], [], [], [], [], [], triUpper]"
  by (simp add: fractureCells_def initialSeeds_def pieceCount_hard sampleSeeds_rightTriangle
        length_triSeeds0 numeral_2_eq_2 relax_tri1 relax_tri2 cells_tri)

lemma areas_tri:
  "polygonArea rightTriangle = 4608" "polygonArea triLower = 2304" "polygonArea triUpper = 2304"
  by (simp_all add: polygonArea_def rightTriangle_def triLower_def triUpper_def)

lemma lengths_tri: "length triLower = 3" "length triUpper = 4"
  by (simp_all add: triLower_def triUpper_def)

lemma ids_rightTriangle:
  "map frag_id (generateFragments rightTriangle (Str ''hard'') None (ambientOf triDraws)) = [0, 12]"
  unfolding generateFragments_ids fractureCells_rightTriangle
  by (simp add: keptCell_def areas_tri lengths_tri upt_rec)










text \<open>The L-shaped outline.\<close>

lemma polygonBounds_lShape:
  "polygonBounds lShape = \<lparr>minX = 0, minY = 0, maxX = 192, maxY = 192\<rparr>"
  by (simp add: lShape_def boundsStep_def)

lemma draws_l:
  "map (drawPoint (ambientOf lDraws) (polygonBounds lShape)) [0..<5] = lSeeds0"
  by (simp add: polygonBounds_lShape drawPoint_def ambientOf_def lDraws_def lSeeds0_def upt_rec)

lemma inside_l: "\<forall>p \<in> set lSeeds0. pointInPolygon p lShape"
  by (simp add: lSeeds0_def pointInPolygon_def lShape_def)

lemma sampleSeeds_lShape:
  "sampleSeeds lShape (Count 5) None (ambientOf lDraws) = (lSeeds0, 5, (0, 10))"
  using sampleSeeds_hits [OF draws_l inside_l] by simp

lemma relax_l1: "relaxOnce lSeeds0 lShape = lSeeds1"
  unfolding lSeeds0_def lSeeds1_def
  by (simp add: pipe_ev lShape_def)

lemma relax_l2: "relaxOnce lSeeds1 lShape = lSeeds2"
  unfolding lSeeds1_def lSeeds2_def
  by (simp add: pipe_ev lShape_def)

lemma cells_l: "computeVoronoiCells lSeeds2 lShape = [lLower, [], [], [], lUpper]"
  unfolding lSeeds2_def lLower_def lUpper_def
  by (simp add: pipe_ev lShape_def)

lemma length_lSeeds0: "length lSeeds0 = 5"
  by (simp add: lSeeds0_def)

lemma fractureCells_lShape:
  "fractureCells lShape (Str ''easy'') None (ambientOf lDraws) = [lLower, [], [], [], lUpper]"
  by (simp add: fractureCells_def initialSeeds_def pieceCount_easy sampleSeeds_lShape
        length_lSeeds0 numeral_2_eq_2 relax_l1 relax_l2 cells_l)

lemma areas_l:
  "polygonArea lShape = 27648" "polygonArea lLower = 4608" "polygonArea lUpper = 4608"
  by (simp_all add: polygonArea_def lShape_def lLower_def lUpper_def)

lemma lengths_l: "length lLower = 4" "length lUpper = 4"
  by (simp_all add: lLower_def lUpper_def)

lemma ids_lShape:
  "map frag_id (generateFragments lShape (Str ''easy'') None (ambientOf lDraws)) = [0, 4]"
  unfolding generateFragments_ids fractureCells_lShape
  by (simp add: keptCell_def areas_l lengths_l upt_rec)

section \<open>Points that no cell can contain\<close>

lemma crossesRay_max:
  assumes "crossesRay pt vi vj"
  shows "px pt < max (px vi) (px vj) \<and> py pt < max (py vi) (py vj)"
proof -
  define t where "t = (py pt - py vi) / (py vj - py vi)"
  from assms have str: "(py vi > py pt) \<noteq> (py vj > py pt)"
    and lt: "px pt < ((px vj - px vi) * (py pt - py vi)) / (py vj - py vi) + px vi"
    by (simp_all add: crossesRay_def)
  from str have t01: "0 \<le> t \<and> t \<le> 1"
    unfolding t_def by (auto simp: field_simps)
  have "((px vj - px vi) * (py pt - py vi)) / (py vj - py vi) + px vi
          = px vi + (px vj - px vi) * t"
    unfolding t_def by simp
  also have "\<dots> = (1 - t) * px vi + t * px vj"
    by (simp add: algebra_simps)
  finally have "((px vj - px vi) * (py pt - py vi)) / (py vj - py vi) + px vi
          = (1 - t) * px vi + t * px vj" .
  moreover have "(1 - t) * px vi \<le> (1 - t) * max (px vi) (px vj)"
    using t01 by (intro mult_left_mono) simp_all
  moreover have "t * px vj \<le> t * max (px vi) (px vj)"
    using t01 by (intro mult_left_mono) simp_all
  ultimately have "((px vj - px vi) * (py pt - py vi)) / (py vj - py vi) + px vi
                     \<le> max (px vi) (px vj)"
    by (simp add: algebra_simps)
  with lt have "px pt < max (px vi) (px vj)" by simp
  moreover from str have "py pt < max (py vi) (py vj)" by auto
  ultimately show ?thesis by simp
qed

lemma pointInPolygon_beyond:
  assumes v: "\<forall>v \<in> set poly. px v \<le> bx \<and> py v \<le> by"
    and p: "bx \<le> px pt \<or> by \<le> py pt"
  shows "\<not> pointInPolygon pt poly"
  unfolding pointInPolygon_def
proof (rule fold_invariant [where Q = "\<lambda>i. i < length poly"])
  show "\<And>i. i \<in> set [0..<length poly] \<Longrightarrow> i < length poly" by simp
  show "\<not> False" by simp
next
  fix i and inside :: bool
  assume i: "i < length poly" and ins: "\<not> inside"
  let ?j = "if i = 0 then length poly - 1 else i - 1"
  from i have j: "?j < length poly" by auto
  have "\<not> crossesRay pt (poly ! i) (poly ! ?j)"
  proof
    assume "crossesRay pt (poly ! i) (poly ! ?j)"
    from crossesRay_max [OF this]
    have "px pt < max (px (poly ! i)) (px (poly ! ?j))"
      and "py pt < max (py (poly ! i)) (py (poly ! ?j))" by simp_all
    moreover from v i j have "max (px (poly ! i)) (px (poly ! ?j)) \<le> bx"
      and "max (py (poly ! i)) (py (poly ! ?j)) \<le> by"
      using nth_mem by (metis max.bounded_iff)+
    ultimately show False using p by auto
  qed
  then show "\<not> (let j = (if i = 0 then length poly - 1 else i - 1);
                    xi = px (poly ! i); yi = py (poly ! i);
                    xj = px (poly ! j); yj = py (poly ! j)
                in if ((yi > py pt) \<noteq> (yj > py pt)) \<and>
                      px pt < ((xj - xi) * (py pt - yi)) / (yj - yi) + xi
                   then \<not> inside else inside)"
    using ins by (simp add: crossesRay_def Let_def)
qed

lemma voronoiCell_lShape:
  assumes "v \<in> set (voronoiCell seeds lShape i)"
  shows "px v \<le> 96 \<and> py v \<le> 96"
proof -
  have edge: "isInside v (lShape ! e) (lShape ! ((e + 1) mod 6))" if "e < 6" for e
    using voronoiCell_outline [of e lShape seeds i] assms that by (simp add: lShape_def)
  from edge [of 2] have "py v \<le> 96" by (simp add: lShape_def isInside_def)
  moreover from edge [of 3] have "px v \<le> 96" by (simp add: lShape_def isInside_def)
  ultimately show ?thesis by simp
qed

lemma voronoiCell_lShape_misses:
  assumes "96 \<le> px p \<or> 96 \<le> py p"
  shows "\<not> pointInPolygon p (voronoiCell seeds lShape i)"
  using pointInPolygon_beyond [of "voronoiCell seeds lShape i" 96 96 p] voronoiCell_lShape assms
  by blast

lemma fractureCells_nth:
  "i < length (fractureCells outline difficulty seed amb) \<Longrightarrow>
   \<exists>seeds. fractureCells outline difficulty seed amb ! i = voronoiCell seeds outline i"
  by (auto simp: fractureCells_def computeVoronoiCells_def)

lemma pointInPolygon_lShape: "pointInPolygon \<lparr>px = 144, py = 48\<rparr> lShape"
  by (simp add: pointInPolygon_def lShape_def)

section \<open>Fragments when the cells cover the outline\<close>







section \<open>Interaction keeps placed fragments\<close>

lemma find_Some_D: "List.find P xs = Some x \<Longrightarrow> x \<in> set xs \<and> P x"
  by (auto simp: find_Some_iff)

lemma unplacedByZ_set:
  "i \<in> set (unplacedByZ frs) \<Longrightarrow> i < length frs \<and> \<not> isPlaced (frs ! i)"
  by (auto simp: unplacedByZ_def)

lemma findFragment_unplaced:
  "findFragment s pos = Some i \<Longrightarrow> i < length (fragmentsRef s) \<and> \<not> isPlaced (fragmentsRef s ! i)"
  unfolding findFragment_def by (blast dest: find_Some_D unplacedByZ_set)

lemma findById_Some:
  "findById frs fid = Some i \<Longrightarrow> i < length frs \<and> frag_id (frs ! i) = fid"
  unfolding findById_def by (auto dest: find_Some_D)

lemma findById_distinct:
  assumes "distinct (map frag_id frs)" "i < length frs"
  shows "findById frs (frag_id (frs ! i)) = Some i"
proof -
  have "\<exists>k. findById frs (frag_id (frs ! i)) = Some k"
    unfolding findById_def using assms(2)
    by (cases "List.find (\<lambda>k. frag_id (frs ! k) = frag_id (frs ! i)) [0..<length frs]")
       (auto simp: find_None_iff)
  then obtain k where k: "findById frs (frag_id (frs ! i)) = Some k" by blast
  then have "k < length frs" "frag_id (frs ! k) = frag_id (frs ! i)"
    by (auto dest: findById_Some)
  with assms have "k = i"
    by (metis distinct_conv_nth length_map nth_map)
  with k show ?thesis by simp
qed

lemma findById_cong:
  "length frs' = length frs \<Longrightarrow> map frag_id frs' = map frag_id frs \<Longrightarrow> findById frs' fid = findById frs fid"
proof -
  assume a: "length frs' = length frs" "map frag_id frs' = map frag_id frs"
  have "\<And>k. k < length frs \<Longrightarrow> frag_id (frs' ! k) = frag_id (frs ! k)"
    using a by (metis nth_map)
  then have "List.find (\<lambda>k. frag_id (frs' ! k) = fid) [0..<length frs]
           = List.find (\<lambda>k. frag_id (frs ! k) = fid) [0..<length frs]"
    by (intro find_cong) auto
  then show ?thesis by (simp add: findById_def a)
qed

lemma map_id_update:
  "frag_id f = frag_id (frs ! i) \<Longrightarrow> map frag_id (frs[i := f]) = map frag_id frs"
  by (cases "i < length frs") (simp_all add: map_update list_update_same_conv list_update_beyond)

lemma lockedL_refl: "lockedL frs frs"
  by (simp add: lockedL_def)

lemma lockedL_trans: "lockedL a b \<Longrightarrow> lockedL b c \<Longrightarrow> lockedL a c"
  by (simp add: lockedL_def)

lemma nth_update_placed:
  "isPlaced (frs ! k) \<Longrightarrow> \<not> isPlaced (frs ! i) \<Longrightarrow> frs[i := f] ! k = frs ! k"
  by (cases "i = k") auto

lemma lockedL_update: "\<not> isPlaced (frs ! i) \<Longrightarrow> lockedL frs (frs[i := f])"
  by (simp add: lockedL_def nth_update_placed)

lemma dragOk_update:
  assumes ok: "dragOk s"
    and fid: "frag_id f = frag_id (fragmentsRef s ! i)"
    and pl: "isPlaced f = isPlaced (fragmentsRef s ! i)"
  shows "dragOk (s\<lparr>fragmentsRef := (fragmentsRef s)[i := f]\<rparr>)"
proof -
  let ?frs = "fragmentsRef s"
  let ?frs' = "?frs[i := f]"
  have ids: "map frag_id ?frs' = map frag_id ?frs" using fid by (rule map_id_update)
  have fb: "findById ?frs' fid = findById ?frs fid" for fid
    by (rule findById_cong) (simp_all add: ids)
  have pls: "isPlaced (?frs' ! k) = isPlaced (?frs ! k)" if "k < length ?frs" for k
    using that pl by (cases "i = k") auto
  show ?thesis
    using ok unfolding dragOk_def
    by (auto simp: ids fb pls split: option.splits dest: findById_Some)
qed

lemma dragOk_release: "dragOk s \<Longrightarrow> dragOk (s\<lparr>draggingRef := None\<rparr>)"
  by (simp add: dragOk_def)

lemma dragOk_grab:
  assumes "dragOk s" "i < length (fragmentsRef s)" "\<not> isPlaced (fragmentsRef s ! i)"
  shows "dragOk (s\<lparr>draggingRef := Some \<lparr>fragmentId = frag_id (fragmentsRef s ! i),
                                          offsetX = ox, offsetY = oy\<rparr>\<rparr>)"
  using assms by (simp add: dragOk_def findById_distinct)

lemma dragged_unplaced:
  "dragOk s \<Longrightarrow> draggingRef s = Some d \<Longrightarrow> findById (fragmentsRef s) (fragmentId d) = Some i
     \<Longrightarrow> \<not> isPlaced (fragmentsRef s ! i)"
  by (simp add: dragOk_def)

lemma handlePointerDown_step:
  assumes ok: "dragOk s"
  shows "dragOk (handlePointerDown v pos s) \<and>
         lockedL (fragmentsRef s) (fragmentsRef (handlePointerDown v pos s))"
proof (cases "\<not> v \<and> (\<exists>i. findFragment s pos = Some i)")
  case False
  then have "handlePointerDown v pos s = s"
    by (auto simp: handlePointerDown_def split: option.splits)
  with ok show ?thesis by (simp add: lockedL_refl)
next
  case True
  then obtain i where v: "\<not> v" and i: "findFragment s pos = Some i" by blast
  from i have il: "i < length (fragmentsRef s)" and un: "\<not> isPlaced (fragmentsRef s ! i)"
    by (auto dest: findFragment_unplaced)
  let ?f = "(fragmentsRef s ! i)\<lparr>zIndex := Max (set (map zIndex (fragmentsRef s))) + 1\<rparr>"
  let ?s1 = "s\<lparr>fragmentsRef := (fragmentsRef s)[i := ?f]\<rparr>"
  have ok1: "dragOk ?s1" by (rule dragOk_update [OF ok]) simp_all
  have il1: "i < length (fragmentsRef ?s1)" using il by simp
  have un1: "\<not> isPlaced (fragmentsRef ?s1 ! i)" using il un by simp
  have eq: "handlePointerDown v pos s =
      ?s1\<lparr>draggingRef := Some \<lparr>fragmentId = frag_id (fragmentsRef ?s1 ! i),
              offsetX = px pos - px (currentPosition (fragmentsRef s ! i)),
              offsetY = py pos - py (currentPosition (fragmentsRef s ! i))\<rparr>\<rparr>"
    using v i il by (simp add: handlePointerDown_def Let_def)
  have "dragOk (handlePointerDown v pos s)"
    unfolding eq by (rule dragOk_grab [OF ok1 il1 un1])
  moreover have "lockedL (fragmentsRef s) (fragmentsRef (handlePointerDown v pos s))"
    unfolding eq using un by (simp add: lockedL_update)
  ultimately show ?thesis by simp
qed

lemma handlePointerMove_step:
  assumes ok: "dragOk s"
  shows "dragOk (handlePointerMove pos s) \<and>
         lockedL (fragmentsRef s) (fragmentsRef (handlePointerMove pos s))"
proof (cases "\<exists>d i. draggingRef s = Some d \<and> findById (fragmentsRef s) (fragmentId d) = Some i")
  case False
  then have "handlePointerMove pos s = s"
    by (auto simp: handlePointerMove_def split: option.splits)
  with ok show ?thesis by (simp add: lockedL_refl)
next
  case True
  then obtain d i where d: "draggingRef s = Some d"
    and i: "findById (fragmentsRef s) (fragmentId d) = Some i" by blast
  have un: "\<not> isPlaced (fragmentsRef s ! i)" by (rule dragged_unplaced [OF ok d i])
  let ?f = "(fragmentsRef s ! i)\<lparr>currentPosition := \<lparr>px = px pos - offsetX d, py = py pos - offsetY d\<rparr>\<rparr>"
  have eq: "handlePointerMove pos s = s\<lparr>fragmentsRef := (fragmentsRef s)[i := ?f]\<rparr>"
    using d i by (simp add: handlePointerMove_def)
  have "dragOk (handlePointerMove pos s)"
    unfolding eq by (rule dragOk_update [OF ok]) simp_all
  moreover have "lockedL (fragmentsRef s) (fragmentsRef (handlePointerMove pos s))"
    unfolding eq using un by (simp add: lockedL_update)
  ultimately show ?thesis by simp
qed

lemma rotateDragged_step:
  assumes ok: "dragOk s"
  shows "dragOk (rotateDragged step s) \<and>
         lockedL (fragmentsRef s) (fragmentsRef (rotateDragged step s))"
proof (cases "\<exists>d i. draggingRef s = Some d \<and> findById (fragmentsRef s) (fragmentId d) = Some i")
  case False
  then have "rotateDragged step s = s"
    by (auto simp: rotateDragged_def split: option.splits)
  with ok show ?thesis by (simp add: lockedL_refl)
next
  case True
  then obtain d i where d: "draggingRef s = Some d"
    and i: "findById (fragmentsRef s) (fragmentId d) = Some i" by blast
  have un: "\<not> isPlaced (fragmentsRef s ! i)" by (rule dragged_unplaced [OF ok d i])
  let ?f = "(fragmentsRef s ! i)\<lparr>rotation := rotation (fragmentsRef s ! i) + step\<rparr>"
  have eq: "rotateDragged step s = s\<lparr>fragmentsRef := (fragmentsRef s)[i := ?f]\<rparr>"
    using d i by (simp add: rotateDragged_def)
  have "dragOk (rotateDragged step s)"
    unfolding eq by (rule dragOk_update [OF ok]) simp_all
  moreover have "lockedL (fragmentsRef s) (fragmentsRef (rotateDragged step s))"
    unfolding eq using un by (simp add: lockedL_update)
  ultimately show ?thesis by simp
qed

lemma handleRotateBtn_step:
  assumes ok: "dragOk s"
  shows "dragOk (handleRotateBtn s) \<and>
         lockedL (fragmentsRef s) (fragmentsRef (handleRotateBtn s))"
proof (cases "unplacedByZ (fragmentsRef s)")
  case Nil
  then have "handleRotateBtn s = s" by (simp add: handleRotateBtn_def)
  with ok show ?thesis by (simp add: lockedL_refl)
next
  case (Cons i rest)
  then have "i \<in> set (unplacedByZ (fragmentsRef s))" by simp
  then have un: "\<not> isPlaced (fragmentsRef s ! i)" by (auto dest: unplacedByZ_set)
  let ?f = "(fragmentsRef s ! i)\<lparr>rotation := rotation (fragmentsRef s ! i) + ROTATE_STEP\<rparr>"
  have eq: "handleRotateBtn s = s\<lparr>fragmentsRef := (fragmentsRef s)[i := ?f]\<rparr>"
    using Cons by (simp add: handleRotateBtn_def)
  have "dragOk (handleRotateBtn s)"
    unfolding eq by (rule dragOk_update [OF ok]) simp_all
  moreover have "lockedL (fragmentsRef s) (fragmentsRef (handleRotateBtn s))"
    unfolding eq using un by (simp add: lockedL_update)
  ultimately show ?thesis by simp
qed

lemma handlePointerUp_step:
  assumes ok: "dragOk s"
  shows "dragOk (handlePointerUp s) \<and>
         lockedL (fragmentsRef s) (fragmentsRef (handlePointerUp s))"
proof (cases "\<exists>d i. draggingRef s = Some d \<and> findById (fragmentsRef s) (fragmentId d) = Some i")
  case False
  then have "handlePointerUp s = s \<or> handlePointerUp s = s\<lparr>draggingRef := None\<rparr>"
    by (auto simp: handlePointerUp_def split: option.splits)
  with ok show ?thesis by (auto simp: lockedL_refl dragOk_release)
next
  case True
  then obtain d i where d: "draggingRef s = Some d"
    and i: "findById (fragmentsRef s) (fragmentId d) = Some i" by blast
  have un: "\<not> isPlaced (fragmentsRef s ! i)" by (rule dragged_unplaced [OF ok d i])
  define f where "f = (fragmentsRef s ! i)
     \<lparr>currentPosition :=
        \<lparr>px = px (leafOriginRef s) + px (centroid (fragmentsRef s ! i)) * scaleRef s,
         py = py (leafOriginRef s) + py (centroid (fragmentsRef s ! i)) * scaleRef s\<rparr>,
      rotation := 0, isPlaced := True\<rparr>"
  have f: "frag_id f = frag_id (fragmentsRef s ! i)" by (simp add: f_def)
  have eq: "handlePointerUp s = s\<lparr>draggingRef := None\<rparr> \<or>
            handlePointerUp s = s\<lparr>draggingRef := None, fragmentsRef := (fragmentsRef s)[i := f]\<rparr>"
    using d i by (simp add: handlePointerUp_def Let_def f_def)
  from ok f have dist: "distinct (map frag_id ((fragmentsRef s)[i := f]))"
    by (simp add: map_id_update dragOk_def)
  from eq show ?thesis
  proof
    assume "handlePointerUp s = s\<lparr>draggingRef := None\<rparr>"
    with ok show ?thesis by (simp add: lockedL_refl dragOk_release)
  next
    assume e: "handlePointerUp s = s\<lparr>draggingRef := None, fragmentsRef := (fragmentsRef s)[i := f]\<rparr>"
    have "dragOk (handlePointerUp s)" unfolding e using dist by (simp add: dragOk_def)
    moreover have "lockedL (fragmentsRef s) (fragmentsRef (handlePointerUp s))"
      unfolding e using un by (simp add: lockedL_update)
    ultimately show ?thesis by simp
  qed
qed

lemma handle_step:
  "dragOk s \<Longrightarrow> dragOk (handle e s) \<and> lockedL (fragmentsRef s) (fragmentsRef (handle e s))"
  by (cases e)
     (simp_all add: handlePointerDown_step handlePointerMove_step handlePointerUp_step
        handleKeyR_def handleWheel_def rotateDragged_step handleRotateBtn_step)

lemma interact_steps:
  "dragOk s \<Longrightarrow> dragOk (interact evs s) \<and> lockedL (fragmentsRef s) (fragmentsRef (interact evs s))"
proof (induction evs arbitrary: s)
  case Nil
  then show ?case by (simp add: interact_def lockedL_refl)
next
  case (Cons e evs)
  from Cons.prems have s1: "dragOk (handle e s)"
    and l1: "lockedL (fragmentsRef s) (fragmentsRef (handle e s))"
    by (simp_all add: handle_step)
  from Cons.IH [OF s1] have "dragOk (interact evs (handle e s))"
    and l2: "lockedL (fragmentsRef (handle e s)) (fragmentsRef (interact evs (handle e s)))"
    by simp_all
  moreover have "interact (e # evs) s = interact evs (handle e s)" by (simp add: interact_def)
  ultimately show ?case using l1 by (auto intro: lockedL_trans)
qed

section \<open>Properties of the specification\<close>

text \<open>
  C1. With a seed, the output should be a function of outline, difficulty and seed alone.
  The code draws the torn-edge noise from \<open>Math.random\<close> even when a seed is given:
  for every outline of non-zero area and every seed for which at least one fragment is
  returned, the call in which \<open>Math.random\<close> always returns 0 and the call in which it
  always returns 1/2 return different fragment lists.
\<close>

theorem C1_seeded_output_depends_on_Math_random:
  "polygonArea outline \<noteq> 0 \<and> generateFragments outline difficulty (Some sd) ambientZero \<noteq> []
   \<longrightarrow> generateFragments outline difficulty (Some sd) ambientZero
         \<noteq> generateFragments outline difficulty (Some sd) ambientHalf"
proof
  assume h: "polygonArea outline \<noteq> 0 \<and>
             generateFragments outline difficulty (Some sd) ambientZero \<noteq> []"
  show "generateFragments outline difficulty (Some sd) ambientZero
          \<noteq> generateFragments outline difficulty (Some sd) ambientHalf"
  proof (rule generateFragments_ambient [where c = 0 and c' = "1 / 2"])
    show "\<And>k. ambientZero k = 0" by (simp add: ambientZero_def)
    show "\<And>k. ambientHalf k = 1 / 2" by (simp add: ambientHalf_def)
    show "(0::real) \<noteq> 1 / 2" by simp
    show "polygonArea outline \<noteq> 0" using h by simp
    show "generateFragments outline difficulty (Some sd) ambientZero \<noteq> []" using h by simp
  qed
qed

theorem C1_seeded_output_depends_on_Math_random_witness:
  "polygonArea thinTriangle \<noteq> 0
   \<and> generateFragments thinTriangle (Str ''easy'') (Some 42) ambientZero \<noteq> []
   \<and> generateFragments thinTriangle (Str ''easy'') (Some 42) ambientZero
       \<noteq> generateFragments thinTriangle (Str ''easy'') (Some 42) ambientHalf"
proof -
  have a: "polygonArea thinTriangle \<noteq> 0" by (simp add: areas_thin)
  have "map frag_id (generateFragments thinTriangle (Str ''easy'') (Some 42) ambientZero) \<noteq> []"
    by (simp only: ids_thin) simp
  then have n: "generateFragments thinTriangle (Str ''easy'') (Some 42) ambientZero \<noteq> []"
    by auto
  from C1_seeded_output_depends_on_Math_random [of thinTriangle "Str ''easy''" 42] a n
  show ?thesis by blast
qed

text \<open>
  C2. The cells underlying the fragments should cover the outline: their areas should
  sum to the outline's area within a relative tolerance of \<open>1e-3\<close>.
  \<open>computeVoronoiCells\<close> passes the outline to \<open>clipPolygon\<close> as the clip polygon,
  and \<open>clipPolygon\<close> is only correct for a convex clip polygon, as its own comment says.
  For the L-shaped outline (simple, counter-clockwise, not convex) every cell is cut down
  to the square of side 96 at the corner. Whatever the seeds, no cell contains a point
  whose \<open>x\<close> or \<open>y\<close> is 97 or more, such as the point (144, 48) of the outline; so this
  holds for the cell of every fragment that \<open>generateFragments\<close> returns, for every
  difficulty, seed and \<open>Math.random\<close>. In the run without a seed in which
  \<open>Math.random\<close> returns \<open>lDraws\<close>, fragments 0 and 4 are returned and the areas of
  their cells sum to 9216, a third of the outline's area 27648.
\<close>

theorem C2_nonconvex_outline_not_covered:
  "polygonArea lShape = 27648
   \<and> pointInPolygon \<lparr>px = 144, py = 48\<rparr> lShape
   \<and> (97 \<le> px p \<or> 97 \<le> py p \<longrightarrow> \<not> pointInPolygon p (voronoiCell seeds lShape i))
   \<and> (\<forall>f \<in> set (generateFragments lShape difficulty seed amb).
        97 \<le> px p \<or> 97 \<le> py p \<longrightarrow>
        \<not> pointInPolygon p (fractureCells lShape difficulty seed amb ! frag_id f))
   \<and> map frag_id (generateFragments lShape (Str ''easy'') None (ambientOf lDraws)) = [0, 4]
   \<and> sum_list (map (\<lambda>f. \<bar>polygonArea (fractureCells lShape (Str ''easy'') None
                                           (ambientOf lDraws) ! frag_id f)\<bar>)
                 (generateFragments lShape (Str ''easy'') None (ambientOf lDraws))) = 9216"
proof -
  have far: "\<not> pointInPolygon p (voronoiCell ss lShape k)"
    if "97 \<le> px p \<or> 97 \<le> py p" for ss k
    using that by (intro voronoiCell_lShape_misses) auto
  have frag: "\<not> pointInPolygon p (fractureCells lShape difficulty seed amb ! frag_id f)"
    if f: "f \<in> set (generateFragments lShape difficulty seed amb)"
      and p: "97 \<le> px p \<or> 97 \<le> py p" for f
  proof -
    from generateFragments_built [of lShape difficulty seed amb] f
    have "frag_id f < length (fractureCells lShape difficulty seed amb)"
      by (auto simp: builtFrom_def)
    from fractureCells_nth [OF this] far [OF p] show ?thesis by auto
  qed
  let ?g = "\<lambda>i. \<bar>polygonArea (fractureCells lShape (Str ''easy'') None (ambientOf lDraws) ! i)\<bar>"
  have "map (\<lambda>f. ?g (frag_id f)) (generateFragments lShape (Str ''easy'') None (ambientOf lDraws))
          = map ?g (map frag_id (generateFragments lShape (Str ''easy'') None (ambientOf lDraws)))"
    by simp
  also have "\<dots> = [4608, 4608]"
    unfolding ids_lShape by (simp add: fractureCells_lShape areas_l)
  finally have total: "sum_list (map (\<lambda>f. ?g (frag_id f))
      (generateFragments lShape (Str ''easy'') None (ambientOf lDraws))) = 9216"
    by simp
  show ?thesis
    using areas_l(1) pointInPolygon_lShape far frag ids_lShape total by blast
qed

theorem C2_nonconvex_outline_not_covered_witness:
  "97 \<le> px \<lparr>px = 144, py = 48\<rparr>
   \<and> \<not> pointInPolygon \<lparr>px = 144, py = 48\<rparr> (voronoiCell lSeeds2 lShape 0)
   \<and> (\<exists>f. f \<in> set (generateFragments lShape (Str ''easy'') None (ambientOf lDraws))
          \<and> \<not> pointInPolygon \<lparr>px = 144, py = 48\<rparr>
                (fractureCells lShape (Str ''easy'') None (ambientOf lDraws) ! frag_id f))"
proof -
  have h: "97 \<le> px \<lparr>px = 144, py = 48\<rparr> \<or> 97 \<le> py \<lparr>px = 144, py = 48\<rparr>" by simp
  note t = C2_nonconvex_outline_not_covered
             [where p = "\<lparr>px = 144, py = 48\<rparr>" and seeds = lSeeds2 and i = 0
                and difficulty = "Str ''easy''" and seed = None and amb = "ambientOf lDraws"]
  from t have "map frag_id (generateFragments lShape (Str ''easy'') None (ambientOf lDraws)) = [0, 4]"
    by blast
  then obtain f where f: "f \<in> set (generateFragments lShape (Str ''easy'') None (ambientOf lDraws))"
    by (cases "generateFragments lShape (Str ''easy'') None (ambientOf lDraws)") auto
  from t h have "\<not> pointInPolygon \<lparr>px = 144, py = 48\<rparr> (voronoiCell lSeeds2 lShape 0)"
    by blast
  moreover from t h f have "\<not> pointInPolygon \<lparr>px = 144, py = 48\<rparr>
      (fractureCells lShape (Str ''easy'') None (ambientOf lDraws) ! frag_id f)"
    by blast
  ultimately show ?thesis using f by auto
qed

text \<open>
  C3. In \<open>computeVoronoiCells\<close> the half-plane clip for seeds \<open>i\<close> and \<open>j\<close> is
  meant to keep seed \<open>i\<close>'s side of the perpendicular bisector. The code keeps the
  other side: a point passes the clip's inside test exactly when it is at least as close
  to seed \<open>j\<close> as to seed \<open>i\<close>. For the seeds (1,2) and (3,2) in a 4 by 4 square,
  seed 0 fails its own clip's inside test, seed 1 passes it, and the cell computed for
  seed 0 contains seed 1 and not seed 0.
\<close>

theorem C3_bisector_keeps_other_seed:
  "isInside p (bisectorA si sj) (bisectorB si sj) = (sqDist p sj \<le> sqDist p si)
   \<and> \<not> isInside seedL (bisectorA seedL seedR) (bisectorB seedL seedR)
   \<and> isInside seedR (bisectorA seedL seedR) (bisectorB seedL seedR)
   \<and> \<not> pointInPolygon seedL (computeVoronoiCells [seedL, seedR] sq4 ! 0)
   \<and> pointInPolygon seedR (computeVoronoiCells [seedL, seedR] sq4 ! 0)"
  unfolding cells_two_seeds
  by (simp add: isInside_bisector sqDist_def seedL_def seedR_def pointInPolygon_def)

text \<open>
  C4, as stated, fails: clipping a triangle of scale \<open>2^-20\<close> against a square of
  side \<open>2^-20\<close> leaves a single vertex after the second clip edge, the loop continues,
  and \<open>clipPolygon\<close> returns a polygon of exactly one vertex.
\<close>

theorem C4_one_vertex_result:
  "clipPolygon tinyTriangle tinySquare = [\<lparr>px = 1 / 2097152, py = 1 / 2097152\<rparr>]"
  by (simp add: clip_ev tinySquare_def tinyTriangle_def)

text \<open>
  C4, amended. \<open>clipPolygon\<close> returns the empty polygon when the subject or the clip
  polygon has fewer than 3 vertices, and its loop halts with the empty polygon as soon as
  the intermediate output is empty. A result of 1 or 2 vertices is returned as it is; it
  is \<open>computeVoronoiCells\<close> that records a cell of fewer than 3 vertices as empty.
\<close>

theorem C4_empty_results:
  "(length subject < 3 \<or> length clip < 3 \<longrightarrow> clipPolygon subject clip = [])
   \<and> clipLoop clip i [] = []
   \<and> (length (voronoiCell seeds poly i) = 0 \<or> 3 \<le> length (voronoiCell seeds poly i))"
  using voronoiCell_length [of seeds poly i]
  by (simp add: clipPolygon_def clipLoop_Nil)

theorem C4_empty_results_witness:
  "(length [seedL, seedR] < 3 \<or> length tinySquare < 3)
   \<and> clipPolygon [seedL, seedR] tinySquare = []"
  using C4_empty_results [of "[seedL, seedR]" tinySquare]
  by simp

text \<open>
  C5. \<open>checkSnap\<close> is true exactly when the Euclidean distance between the current
  position and \<open>anchor + centroid\<close> is below the snap distance and the rotation,
  normalised into \<open>[0, 2\<pi>)\<close>, is within the tolerance of 0 on either side of the
  wrap. With distance 35 and tolerance 0.4, a fragment at distance 34 with rotation 0.39
  snaps; one at distance 36 does not, and one with rotation 0.41 does not.
\<close>

theorem C5_checkSnap:
  "checkSnap frag anchor d tol = checkSnap_spec frag anchor d tol \<and>
   (euclid (currentPosition frag) (snapTarget frag anchor) = 34 \<and> rotation frag = 39 / 100
      \<longrightarrow> checkSnap frag anchor 35 (4 / 10)) \<and>
   (euclid (currentPosition frag) (snapTarget frag anchor) = 36
      \<longrightarrow> \<not> checkSnap frag anchor 35 (4 / 10)) \<and>
   (rotation frag = 41 / 100 \<longrightarrow> \<not> checkSnap frag anchor 35 (4 / 10))"
proof -
  have n39: "normalizeAngle (39 / 100) = 39 / 100" by (rule normalize_small) simp_all
  have n41: "normalizeAngle (41 / 100) = 41 / 100" by (rule normalize_small) simp_all
  have p: "2 \<le> pi" by (rule pi_ge_two)
  have c1: "checkSnap frag anchor 35 (4 / 10)"
    if h: "euclid (currentPosition frag) (snapTarget frag anchor) = 34 \<and> rotation frag = 39 / 100"
  proof -
    from h n39 have "normalizeAngle (rotation frag) = 39 / 100" by (simp only:)
    moreover from h have "euclid (currentPosition frag) (snapTarget frag anchor) = 34" by (rule conjunct1)
    ultimately show ?thesis
      unfolding checkSnap_refines checkSnap_spec_def by (simp only:) simp
  qed
  have c2: "\<not> checkSnap frag anchor 35 (4 / 10)"
    if "euclid (currentPosition frag) (snapTarget frag anchor) = 36"
    unfolding checkSnap_refines checkSnap_spec_def using that by simp
  have c3: "\<not> checkSnap frag anchor 35 (4 / 10)" if h: "rotation frag = 41 / 100"
  proof -
    from h n41 have "normalizeAngle (rotation frag) = 41 / 100" by (simp only:)
    then show ?thesis
      unfolding checkSnap_refines checkSnap_spec_def using p by (simp only:) simp
  qed
  show ?thesis
    using c1 c2 c3 checkSnap_refines by blast
qed

lemma sqrt_sq34: "sqrt ((34::real)\<^sup>2) = 34"
  by simp

lemma sqrt_sq36: "sqrt ((36::real)\<^sup>2) = 36"
  by simp

theorem C5_checkSnap_witness:
  "(euclid (currentPosition frag34) (snapTarget frag34 \<lparr>px = 100, py = 100\<rparr>) = 34 \<and>
    rotation frag34 = 39 / 100 \<and> checkSnap frag34 \<lparr>px = 100, py = 100\<rparr> 35 (4 / 10)) \<and>
   (euclid (currentPosition frag36) (snapTarget frag36 \<lparr>px = 100, py = 100\<rparr>) = 36 \<and>
    \<not> checkSnap frag36 \<lparr>px = 100, py = 100\<rparr> 35 (4 / 10)) \<and>
   (rotation frag41 = 41 / 100 \<and> \<not> checkSnap frag41 \<lparr>px = 100, py = 100\<rparr> 35 (4 / 10))"
proof -
  have e34: "euclid (currentPosition frag34) (snapTarget frag34 \<lparr>px = 100, py = 100\<rparr>) = 34"
    using sqrt_sq34 by (simp add: euclid_def snapTarget_def frag34_def)
  have r39: "rotation frag34 = 39 / 100" by (simp add: frag34_def)
  have e36: "euclid (currentPosition frag36) (snapTarget frag36 \<lparr>px = 100, py = 100\<rparr>) = 36"
    using sqrt_sq36 by (simp add: euclid_def snapTarget_def frag36_def frag34_def)
  have r41: "rotation frag41 = 41 / 100" by (simp add: frag41_def)
  from C5_checkSnap [of frag34 "\<lparr>px = 100, py = 100\<rparr>"]
       C5_checkSnap [of frag36 "\<lparr>px = 100, py = 100\<rparr>"]
       C5_checkSnap [of frag41 "\<lparr>px = 100, py = 100\<rparr>"]
       e34 r39 e36 r41
  show ?thesis by blast
qed

text \<open>
  C6. \<open>snapFragment\<close> sets the current position to \<open>anchor + centroid\<close>, the
  rotation to 0 and \<open>isPlaced\<close> to true. The hit-test lookup never returns a placed
  fragment. From a state with unique ids in which nothing is dragged or nothing is placed
  yet, after any sequence of pointer, key, wheel and rotate-button events, every fragment
  that is placed keeps its current position, its rotation and its placed flag through
  any further sequence of such events. The fragments that \<open>generateFragments\<close> returns
  have unique ids and are unplaced.
\<close>

theorem C6_placed_fragments_locked:
  "currentPosition (snapFragment frag anchor) =
     \<lparr>px = px anchor + px (centroid frag), py = py anchor + py (centroid frag)\<rparr>
   \<and> rotation (snapFragment frag anchor) = 0
   \<and> isPlaced (snapFragment frag anchor)
   \<and> (findFragment s pos = Some i \<longrightarrow> \<not> isPlaced (fragmentsRef s ! i))
   \<and> (distinct (map frag_id (fragmentsRef s0)) \<and>
       (draggingRef s0 = None \<or> (\<forall>f \<in> set (fragmentsRef s0). \<not> isPlaced f)) \<longrightarrow>
        lockedL (fragmentsRef (interact evs s0))
                (fragmentsRef (interact evs' (interact evs s0))))
   \<and> distinct (map frag_id (generateFragments outline difficulty seed amb))
   \<and> (\<forall>f \<in> set (generateFragments outline difficulty seed amb). \<not> isPlaced f)"
proof -
  have "lockedL (fragmentsRef (interact evs s0)) (fragmentsRef (interact evs' (interact evs s0)))"
    if h: "distinct (map frag_id (fragmentsRef s0)) \<and>
           (draggingRef s0 = None \<or> (\<forall>f \<in> set (fragmentsRef s0). \<not> isPlaced f))"
  proof -
    from h have "dragOk s0"
      by (auto simp: dragOk_def split: option.splits dest!: findById_Some)
    then have "dragOk (interact evs s0)" by (simp add: interact_steps)
    then show ?thesis by (simp add: interact_steps)
  qed
  moreover have "\<not> isPlaced (fragmentsRef s ! i)" if "findFragment s pos = Some i"
    using that by (simp add: findFragment_unplaced)
  moreover have "distinct (map frag_id (generateFragments outline difficulty seed amb))"
    using generateFragments_built [of outline difficulty seed amb] by simp
  moreover have "\<forall>f \<in> set (generateFragments outline difficulty seed amb). \<not> isPlaced f"
    by (rule generateFragments_unplaced)
  ultimately show ?thesis
    by (simp add: snapFragment_def)
qed

lemma interact_evsPlace:
  "fragmentsRef (interact evsPlace canvas0) =
     [squareFrag\<lparr>currentPosition := \<lparr>px = 300, py = 300\<rparr>, isPlaced := True, zIndex := 1\<rparr>]"
  by (simp add: interact_def evsPlace_def canvas0_def squareFrag_def handlePointerDown_def
        handlePointerMove_def handlePointerUp_def findFragment_def unplacedByZ_def findById_def
        scaledFrag_def hitTestFragment_def hitTestAt_def pointInPolygon_def Let_def
        jsMod_def jsTrunc_def SNAP_DISTANCE_def SNAP_ANGLE_def)

theorem C6_placed_fragments_locked_witness:
  "findFragment canvas0 \<lparr>px = 100, py = 100\<rparr> = Some 0
   \<and> \<not> isPlaced (fragmentsRef canvas0 ! 0)
   \<and> draggingRef canvas0 = None \<and> distinct (map frag_id (fragmentsRef canvas0))
   \<and> isPlaced (fragmentsRef (interact evsPlace canvas0) ! 0)
   \<and> isPlaced (fragmentsRef (interact evsAfter (interact evsPlace canvas0)) ! 0)
   \<and> currentPosition (fragmentsRef (interact evsAfter (interact evsPlace canvas0)) ! 0)
       = \<lparr>px = 300, py = 300\<rparr>
   \<and> rotation (fragmentsRef (interact evsAfter (interact evsPlace canvas0)) ! 0) = 0
   \<and> (\<exists>f. f \<in> set (generateFragments thinTriangle (Str ''easy'') (Some 42) ambientZero)
          \<and> \<not> isPlaced f)"
proof -
  have f: "findFragment canvas0 \<lparr>px = 100, py = 100\<rparr> = Some 0"
    by (simp add: canvas0_def squareFrag_def findFragment_def unplacedByZ_def scaledFrag_def
          hitTestFragment_def hitTestAt_def pointInPolygon_def Let_def)
  have h: "draggingRef canvas0 = None \<and> distinct (map frag_id (fragmentsRef canvas0))"
    by (simp add: canvas0_def)
  note t = C6_placed_fragments_locked
             [where s = canvas0 and pos = "\<lparr>px = 100, py = 100\<rparr>" and i = 0 and ?s0.0 = canvas0
                and evs = evsPlace and evs' = evsAfter and outline = thinTriangle
                and difficulty = "Str ''easy''" and seed = "Some 42" and amb = ambientZero]
  from t f have u: "\<not> isPlaced (fragmentsRef canvas0 ! 0)" by blast
  from t h have l: "lockedL (fragmentsRef (interact evsPlace canvas0))
              (fragmentsRef (interact evsAfter (interact evsPlace canvas0)))"
    by blast
  have p: "isPlaced (fragmentsRef (interact evsPlace canvas0) ! 0)"
    and c: "currentPosition (fragmentsRef (interact evsPlace canvas0) ! 0) = \<lparr>px = 300, py = 300\<rparr>"
    and r: "rotation (fragmentsRef (interact evsPlace canvas0) ! 0) = 0"
    and n: "0 < length (fragmentsRef (interact evsPlace canvas0))"
    by (simp_all add: interact_evsPlace squareFrag_def)
  from l n p c r have k:
    "isPlaced (fragmentsRef (interact evsAfter (interact evsPlace canvas0)) ! 0)
     \<and> currentPosition (fragmentsRef (interact evsAfter (interact evsPlace canvas0)) ! 0)
         = \<lparr>px = 300, py = 300\<rparr>
     \<and> rotation (fragmentsRef (interact evsAfter (interact evsPlace canvas0)) ! 0) = 0"
    unfolding lockedL_def by metis
  have "map frag_id (generateFragments thinTriangle (Str ''easy'') (Some 42) ambientZero) \<noteq> []"
    by (simp only: ids_thin) simp
  then obtain g where g: "g \<in> set (generateFragments thinTriangle (Str ''easy'') (Some 42) ambientZero)"
    by (cases "generateFragments thinTriangle (Str ''easy'') (Some 42) ambientZero") auto
  with t have "\<not> isPlaced g" by blast
  with g have e: "\<exists>f. f \<in> set (generateFragments thinTriangle (Str ''easy'') (Some 42) ambientZero)
          \<and> \<not> isPlaced f" by blast
  from f h u p k e show ?thesis by blast
qed




text \<open>
  C8. Seed sampling makes at most 200 times the requested count of attempts. If fewer
  than 3 points inside the outline were found, the seed set is replaced by three fixed
  points around the centre of the outline's bounding box: the centre, the centre minus
  (20, 20) and the centre plus (20, 20). So the relaxation step and the Voronoi step
  always receive at least 3 seeds, one cell is computed for each of them, and the call
  returns at most one fragment per cell.
\<close>

theorem C8_bounded_sampling_and_fallback:
  "fst (snd (sampleSeeds outline (Count n) seed amb)) \<le> 200 * n
   \<and> (length (fst (sampleSeeds outline cnt seed amb)) < 3 \<longrightarrow>
        initialSeeds outline cnt seed amb =
          [\<lparr>px = (minX (polygonBounds outline) + maxX (polygonBounds outline)) / 2,
            py = (minY (polygonBounds outline) + maxY (polygonBounds outline)) / 2\<rparr>,
           \<lparr>px = (minX (polygonBounds outline) + maxX (polygonBounds outline)) / 2 - 20,
            py = (minY (polygonBounds outline) + maxY (polygonBounds outline)) / 2 - 20\<rparr>,
           \<lparr>px = (minX (polygonBounds outline) + maxX (polygonBounds outline)) / 2 + 20,
            py = (minY (polygonBounds outline) + maxY (polygonBounds outline)) / 2 + 20\<rparr>])
   \<and> 3 \<le> length (initialSeeds outline cnt seed amb)
   \<and> 3 \<le> length (lloydRelax (initialSeeds outline cnt seed amb) outline 2)
   \<and> 3 \<le> length (fractureCells outline difficulty seed amb)
   \<and> length (generateFragments outline difficulty seed amb)
       \<le> length (fractureCells outline difficulty seed amb)"
  using sampleSeeds_bounds [of outline "Count n" seed amb]
    initialSeeds_length [of outline cnt seed amb]
    initialSeeds_length [of outline "pieceCount difficulty" seed amb]
    generateFragments_built [of outline difficulty seed amb]
  by (simp add: initialSeeds_def fallbackSeeds_def Let_def length_fractureCells)

theorem C8_bounded_sampling_and_fallback_witness:
  "length (fst (sampleSeeds thinTriangle (Count 5) (Some 42) ambientZero)) < 3
   \<and> initialSeeds thinTriangle (Count 5) (Some 42) ambientZero
       = [\<lparr>px = 50, py = 50\<rparr>, \<lparr>px = 30, py = 30\<rparr>, \<lparr>px = 70, py = 70\<rparr>]"
proof -
  have s: "length (fst (sampleSeeds thinTriangle (Count 5) (Some 42) ambientZero)) < 3"
    by (simp add: sampleSeeds_def randomPointsInPolygon_def
          randomPointsLoop_misses [OF seeded_sample_misses])
  from C8_bounded_sampling_and_fallback
         [where outline = thinTriangle and cnt = "Count 5" and seed = "Some 42" and amb = ambientZero] s
  have "initialSeeds thinTriangle (Count 5) (Some 42) ambientZero =
          [\<lparr>px = (minX (polygonBounds thinTriangle) + maxX (polygonBounds thinTriangle)) / 2,
            py = (minY (polygonBounds thinTriangle) + maxY (polygonBounds thinTriangle)) / 2\<rparr>,
           \<lparr>px = (minX (polygonBounds thinTriangle) + maxX (polygonBounds thinTriangle)) / 2 - 20,
            py = (minY (polygonBounds thinTriangle) + maxY (polygonBounds thinTriangle)) / 2 - 20\<rparr>,
           \<lparr>px = (minX (polygonBounds thinTriangle) + maxX (polygonBounds thinTriangle)) / 2 + 20,
            py = (minY (polygonBounds thinTriangle) + maxY (polygonBounds thinTriangle)) / 2 + 20\<rparr>]"
    by blast
  with s show ?thesis by (simp add: polygonBounds_thinTriangle)
qed

text \<open>
  C9. \<open>hitTestFragment\<close> translates the point relative to the fragment's current
  position, applies the inverse rotation, and tests containment in the fragment's
  polygon offset by minus the centroid. For the square fragment of side 10 centred at
  the origin, with rotation 0 and current position (100, 100), the point (100, 100)
  hits and the point (200, 200) does not.
\<close>

theorem C9_hitTest:
  "hitTestFragment p frag =
     pointInPolygon
       (transformPoint
          \<lparr>px = px p - px (currentPosition frag), py = py p - py (currentPosition frag)\<rparr>
          (- rotation frag) \<lparr>px = 0, py = 0\<rparr>)
       (map (\<lambda>v. \<lparr>px = px v - px (centroid frag), py = py v - py (centroid frag)\<rparr>)
            (polygon frag))
   \<and> hitTestFragment \<lparr>px = 100, py = 100\<rparr> squareFrag
   \<and> \<not> hitTestFragment \<lparr>px = 200, py = 200\<rparr> squareFrag"
  by (simp add: hitTestFragment_def hitTestAt_def transformPoint_def Let_def squareFrag_def
        pointInPolygon_def)

text \<open>
  C10, as stated, fails: the difficulty \<open>'toString'\<close> is none of the three tiers, yet
  the property read finds the method every object inherits, which is truthy, so the
  piece count used is that function and not 8.
\<close>

theorem C10_inherited_key: "pieceCount (Str ''toString'') \<noteq> Count 8"
  by (simp add: pieceCount_def lookupDifficulty_def PIECE_COUNTS_def objectPrototypeKeys_def)

text \<open>
  C10, amended. If the difficulty argument is omitted, \<open>null\<close>, a number, or a string
  that is none of \<open>'easy'\<close>, \<open>'medium'\<close>, \<open>'hard'\<close> and not the name of a property
  inherited from \<open>Object.prototype\<close>, the piece count used is the medium tier's 8.
\<close>

theorem C10_fallback_medium:
  "difficulty = Undefined \<or> difficulty = Null \<or> (\<exists>r. difficulty = Num r) \<or>
   (\<exists>key. difficulty = Str key \<and> key \<notin> {''easy'', ''medium'', ''hard''} \<and>
          key \<notin> set objectPrototypeKeys)
   \<Longrightarrow> pieceCount difficulty = Count 8"
  by (auto simp add: pieceCount_def lookupDifficulty_def PIECE_COUNTS_def)

theorem C10_fallback_medium_witness:
  "pieceCount (Num 13) = Count 8 \<and> pieceCount Undefined = Count 8
   \<and> pieceCount (Str ''extreme'') = Count 8"
proof -
  have n: "pieceCount (Num 13) = Count 8"
    by (rule C10_fallback_medium) simp
  have u: "pieceCount Undefined = Count 8"
    by (rule C10_fallback_medium) simp
  have s: "pieceCount (Str ''extreme'') = Count 8"
    by (rule C10_fallback_medium) (simp add: objectPrototypeKeys_def)
  from n u s show ?thesis by simp
qed

end
